theory Spec2Isabelle
  imports Main "HOL-Library.Word" "HOL-Library.List_Lexorder" "HOL-Library.Product_Lexorder"
begin

unbundle bit_operations_syntax

section \<open>HPACK (draft 7) header compression: hyper/http20/hpack.py\<close>

text \<open>
  A shallow embedding of \<^verbatim>\<open>hyper/http20/hpack.py\<close> as it runs on Python 3. Byte
  strings are lists of 8-bit words, Python integers are \<open>int\<close>, positions inside a
  byte string are \<open>nat\<close>. Every exception the source can raise is a value of
  \<open>error\<close>, and a function that can raise returns \<open>error + 'a\<close> with \<open>Inl\<close> for
  the exception. The encoder and the decoder objects are records that are passed in and
  returned; when a method raises, the model gives the exception alone and not the object
  as the method left it.
\<close>

subsection \<open>Data\<close>

type_synonym byte = "8 word"
type_synonym bytes = "byte list"
type_synonym header = "bytes \<times> bytes"

text \<open>Python text (\<open>str\<close>): a sequence of Unicode code points.\<close>

type_synonym unicode = "nat list"

datatype error =
    IndexError
  | ValueError
  | KeyError
  | TypeError
  | AttributeError
  | HPACKEncodingError
  | UnicodeDecodeError
  | UnicodeEncodeError
  | HuffmanError

text \<open>
  \<open>compat.to_byte\<close> is not among the sources. It gives the integer value of one
  element of a byte string (the identity on Python 3, \<open>ord\<close> on Python 2).
\<close>

definition to_byte :: "byte \<Rightarrow> int" where
  "to_byte b = uint b"

text \<open>A byte-string literal \<open>b'...'\<close>.\<close>

definition bytes_lit :: "string \<Rightarrow> bytes" where
  "bytes_lit s = map of_char s"

text \<open>
  \<open>bytearray(elements)\<close>: every element has to be in \<open>range(256)\<close>, otherwise
  Python raises ValueError.
\<close>

definition bytearray :: "int list \<Rightarrow> error + bytes" where
  "bytearray elements =
     (if list_all (\<lambda>x. 0 \<le> x \<and> x < 256) elements
      then Inr (map word_of_int elements)
      else Inl ValueError)"

subsection \<open>The integer codec\<close>

text \<open>
  The \<open>while integer >= 128\<close> loop of \<open>encode_integer\<close> together with the final
  \<open>elements.append(integer)\<close>: the elements appended after the prefix byte.
\<close>

function encode_integer_loop :: "int \<Rightarrow> int list" where
  "encode_integer_loop integer =
     (if integer \<ge> 128
      then ((integer mod 128) + 128) # encode_integer_loop (integer div 128)
      else [integer])"
  by pat_completeness auto
termination
  by (relation "measure nat") auto

declare encode_integer_loop.simps [simp del]

definition encode_integer :: "int \<Rightarrow> nat \<Rightarrow> error + bytes" where
  "encode_integer integer prefix_bits =
     (let max_number = 2 ^ prefix_bits - 1 in
      if integer < max_number then bytearray [integer]
      else bytearray (max_number # encode_integer_loop (integer - max_number)))"

text \<open>\<open>multiple = lambda index: 128 ** (index - 1)\<close>; it is only called with \<open>index \<ge> 1\<close>.\<close>

definition multiple :: "nat \<Rightarrow> int" where
  "multiple index = 128 ^ (index - 1)"

text \<open>
  The \<open>while True\<close> loop of \<open>decode_integer\<close>. \<open>index\<close> is the value the variable
  has when the loop body starts; reading \<open>data[index]\<close> past the end raises IndexError.
\<close>

function decode_integer_loop :: "bytes \<Rightarrow> nat \<Rightarrow> int \<Rightarrow> error + (int \<times> nat)" where
  "decode_integer_loop data index number =
     (let index = index + 1 in
      if index < length data then
        (let next_byte = to_byte (data ! index) in
         if next_byte \<ge> 128
         then decode_integer_loop data index (number + (next_byte - 128) * multiple index)
         else Inr (number + next_byte * multiple index, index + 1))
      else Inl IndexError)"
  by pat_completeness auto
termination
  by (relation "measure (\<lambda>(data, index, number). length data - index)") auto

declare decode_integer_loop.simps [simp del]

text \<open>
  \<open>0xFF >> (8 - prefix_bits)\<close> raises ValueError for a negative shift count, that is
  for \<open>prefix_bits > 8\<close>; \<open>data[0]\<close> raises IndexError on empty input.
\<close>

definition decode_integer :: "bytes \<Rightarrow> nat \<Rightarrow> error + (int \<times> nat)" where
  "decode_integer data prefix_bits =
     (let max_number = 2 ^ prefix_bits - 1 in
      if prefix_bits > 8 then Inl ValueError
      else
        (let mask = drop_bit (8 - prefix_bits) (255 :: int) in
         case data of
           [] \<Rightarrow> Inl IndexError
         | b # _ \<Rightarrow>
             (let number = to_byte b AND mask in
              if number = max_number then decode_integer_loop data 0 number
              else Inr (number, 1))))"

text \<open>
  The long form of the integer encoding as section 4.1 of the specification words it:
  after the prefix byte, emit \<open>(I mod 128) | 0x80\<close> and divide \<open>I\<close> by 128 while
  \<open>I \<ge> 128\<close>, then emit \<open>I\<close>.
\<close>

function spec_continuation :: "int \<Rightarrow> int list" where
  "spec_continuation i =
     (if i \<ge> 128 then ((i mod 128) OR 128) # spec_continuation (i div 128) else [i])"
  by pat_completeness auto
termination
  by (relation "measure nat") auto

declare spec_continuation.simps [simp del]

definition spec_encode_long :: "int \<Rightarrow> nat \<Rightarrow> int list" where
  "spec_encode_long i n = (2 ^ n - 1) # spec_continuation i"

subsection \<open>Helpers for exceptions and Python containers\<close>

text \<open>Sequencing of two steps, the first of which may raise.\<close>

fun and_then :: "error + 'a \<Rightarrow> ('a \<Rightarrow> error + 'b) \<Rightarrow> error + 'b" where
  "and_then (Inl e) f = Inl e"
| "and_then (Inr x) f = f x"

text \<open>
  \<open>xs[i]\<close> on a list, a deque or a byte string: a negative index counts from the end,
  an index out of range raises IndexError.
\<close>

definition py_index :: "'a list \<Rightarrow> int \<Rightarrow> error + 'a" where
  "py_index xs i =
     (if 0 \<le> i \<and> i < int (length xs) then Inr (xs ! nat i)
      else if i < 0 \<and> - int (length xs) \<le> i then Inr (xs ! nat (int (length xs) + i))
      else Inl IndexError)"

text \<open>\<open>field[0] = field[0] | 0x80\<close> on a bytearray.\<close>

definition set_top_bit :: "bytes \<Rightarrow> error + bytes" where
  "set_top_bit field =
     (case field of [] \<Rightarrow> Inl IndexError | b # rest \<Rightarrow> Inr ((b OR 0x80) # rest))"

subsection \<open>Text and UTF-8\<close>

text \<open>
  \<open>str.encode('utf-8')\<close> and \<open>bytes.decode('utf-8')\<close> of the Python library, in
  their default strict mode: a surrogate code point cannot be encoded, and only
  well-formed sequences (shortest form, no surrogates, at most U+10FFFF) are decoded.
  A Python string holds no code point above U+10FFFF; the model rejects one.
\<close>

definition utf8_encode_point :: "nat \<Rightarrow> error + bytes" where
  "utf8_encode_point c =
     (if c < 0x80 then Inr [of_nat c]
      else if c < 0x800 then Inr [of_nat (0xC0 + c div 64), of_nat (0x80 + c mod 64)]
      else if 0xD800 \<le> c \<and> c < 0xE000 then Inl UnicodeEncodeError
      else if c < 0x10000 then
        Inr [of_nat (0xE0 + c div 4096), of_nat (0x80 + (c div 64) mod 64),
             of_nat (0x80 + c mod 64)]
      else if c < 0x110000 then
        Inr [of_nat (0xF0 + c div 262144), of_nat (0x80 + (c div 4096) mod 64),
             of_nat (0x80 + (c div 64) mod 64), of_nat (0x80 + c mod 64)]
      else Inl UnicodeEncodeError)"

fun utf8_encode :: "unicode \<Rightarrow> error + bytes" where
  "utf8_encode [] = Inr []"
| "utf8_encode (c # cs) =
     (case utf8_encode_point c of
        Inl e \<Rightarrow> Inl e
      | Inr bs \<Rightarrow> (case utf8_encode cs of Inl e \<Rightarrow> Inl e | Inr rest \<Rightarrow> Inr (bs @ rest)))"

definition is_continuation :: "byte \<Rightarrow> bool" where
  "is_continuation b = (b AND 0xC0 = 0x80)"

definition payload :: "byte \<Rightarrow> nat" where
  "payload b = unat (b AND 0x3F)"

fun prepend :: "nat \<Rightarrow> error + unicode \<Rightarrow> error + unicode" where
  "prepend c (Inl e) = Inl e"
| "prepend c (Inr cs) = Inr (c # cs)"

fun utf8_decode :: "bytes \<Rightarrow> error + unicode" where
  "utf8_decode [] = Inr []"
| "utf8_decode (b0 # rest) =
     (if b0 < 0x80 then prepend (unat b0) (utf8_decode rest)
      else if b0 AND 0xE0 = 0xC0 then
        (case rest of
           b1 # rest1 \<Rightarrow>
             (let c = unat (b0 AND 0x1F) * 64 + payload b1 in
              if is_continuation b1 \<and> 0x80 \<le> c
              then prepend c (utf8_decode rest1) else Inl UnicodeDecodeError)
         | _ \<Rightarrow> Inl UnicodeDecodeError)
      else if b0 AND 0xF0 = 0xE0 then
        (case rest of
           b1 # b2 # rest2 \<Rightarrow>
             (let c = unat (b0 AND 0x0F) * 4096 + payload b1 * 64 + payload b2 in
              if is_continuation b1 \<and> is_continuation b2 \<and> 0x800 \<le> c
                 \<and> (c < 0xD800 \<or> 0xE000 \<le> c)
              then prepend c (utf8_decode rest2) else Inl UnicodeDecodeError)
         | _ \<Rightarrow> Inl UnicodeDecodeError)
      else if b0 AND 0xF8 = 0xF0 then
        (case rest of
           b1 # b2 # b3 # rest3 \<Rightarrow>
             (let c = unat (b0 AND 0x07) * 262144 + payload b1 * 4096
                        + payload b2 * 64 + payload b3 in
              if is_continuation b1 \<and> is_continuation b2 \<and> is_continuation b3
                 \<and> 0x10000 \<le> c \<and> c < 0x110000
              then prepend c (utf8_decode rest3) else Inl UnicodeDecodeError)
         | _ \<Rightarrow> Inl UnicodeDecodeError)
      else Inl UnicodeDecodeError)"

text \<open>A text literal: the code points of an ASCII string.\<close>

definition text_lit :: "string \<Rightarrow> unicode" where
  "text_lit s = map of_char s"

subsection \<open>Input coercion\<close>

text \<open>
  An object that is neither a \<open>str\<close> nor a \<open>bytes\<close>: an integer, a boolean,
  \<open>None\<close>, or an instance of any other class, which is given by the text that its
  \<open>__str__\<close> method returns.
\<close>

datatype pyobj = PyInt int | PyBool bool | PyNone | PyObject unicode

text \<open>The decimal digits of a natural number, as code points.\<close>

fun decimal :: "nat \<Rightarrow> unicode" where
  "decimal n = (if n < 10 then [48 + n] else decimal (n div 10) @ [48 + n mod 10])"

declare decimal.simps [simp del]

text \<open>The built-in \<open>str()\<close> on such an object.\<close>

fun py_str :: "pyobj \<Rightarrow> unicode" where
  "py_str (PyInt i) = (if i < 0 then 45 # decimal (nat (- i)) else decimal (nat i))"
| "py_str (PyBool b) = (if b then text_lit ''True'' else text_lit ''False'')"
| "py_str PyNone = text_lit ''None''"
| "py_str (PyObject s) = s"

text \<open>
  A value handed to \<open>Encoder.encode\<close> as a header name or value: a \<open>str\<close>, a
  \<open>bytes\<close>, or an object of another type.
\<close>

datatype pyval = Str unicode | Bytes bytes | Other pyobj

text \<open>
  \<open>_to_bytes\<close>: an object that is neither \<open>str\<close> nor \<open>bytes\<close> is replaced by
  \<open>str()\<close> of it; then \<open>bytes\<close> are returned as they are and a \<open>str\<close> is
  encoded as UTF-8.
\<close>

fun to_bytes :: "pyval \<Rightarrow> error + bytes" where
  "to_bytes (Bytes b) = Inr b"
| "to_bytes (Str s) = utf8_encode s"
| "to_bytes (Other x) = utf8_encode (py_str x)"

subsection \<open>Tables\<close>

text \<open>The module-level function \<open>header_table_size(table)\<close>.\<close>

definition header_table_size :: "header list \<Rightarrow> int" where
  "header_table_size table =
     sum_list (map (\<lambda>(name, value). 32 + int (length name) + int (length value)) table)"

text \<open>\<open>Encoder.static_table\<close> and \<open>Decoder.static_table\<close>: the same 61 pairs.\<close>

definition static_table :: "header list" where
  "static_table = [
      (bytes_lit '':authority'', bytes_lit ''''),
      (bytes_lit '':method'', bytes_lit ''GET''),
      (bytes_lit '':method'', bytes_lit ''POST''),
      (bytes_lit '':path'', bytes_lit ''/''),
      (bytes_lit '':path'', bytes_lit ''/index.html''),
      (bytes_lit '':scheme'', bytes_lit ''http''),
      (bytes_lit '':scheme'', bytes_lit ''https''),
      (bytes_lit '':status'', bytes_lit ''200''),
      (bytes_lit '':status'', bytes_lit ''204''),
      (bytes_lit '':status'', bytes_lit ''206''),
      (bytes_lit '':status'', bytes_lit ''304''),
      (bytes_lit '':status'', bytes_lit ''400''),
      (bytes_lit '':status'', bytes_lit ''404''),
      (bytes_lit '':status'', bytes_lit ''500''),
      (bytes_lit ''accept-charset'', bytes_lit ''''),
      (bytes_lit ''accept-encoding'', bytes_lit ''gzip, deflate''),
      (bytes_lit ''accept-language'', bytes_lit ''''),
      (bytes_lit ''accept-ranges'', bytes_lit ''''),
      (bytes_lit ''accept'', bytes_lit ''''),
      (bytes_lit ''access-control-allow-origin'', bytes_lit ''''),
      (bytes_lit ''age'', bytes_lit ''''),
      (bytes_lit ''allow'', bytes_lit ''''),
      (bytes_lit ''authorization'', bytes_lit ''''),
      (bytes_lit ''cache-control'', bytes_lit ''''),
      (bytes_lit ''content-disposition'', bytes_lit ''''),
      (bytes_lit ''content-encoding'', bytes_lit ''''),
      (bytes_lit ''content-language'', bytes_lit ''''),
      (bytes_lit ''content-length'', bytes_lit ''''),
      (bytes_lit ''content-location'', bytes_lit ''''),
      (bytes_lit ''content-range'', bytes_lit ''''),
      (bytes_lit ''content-type'', bytes_lit ''''),
      (bytes_lit ''cookie'', bytes_lit ''''),
      (bytes_lit ''date'', bytes_lit ''''),
      (bytes_lit ''etag'', bytes_lit ''''),
      (bytes_lit ''expect'', bytes_lit ''''),
      (bytes_lit ''expires'', bytes_lit ''''),
      (bytes_lit ''from'', bytes_lit ''''),
      (bytes_lit ''host'', bytes_lit ''''),
      (bytes_lit ''if-match'', bytes_lit ''''),
      (bytes_lit ''if-modified-since'', bytes_lit ''''),
      (bytes_lit ''if-none-match'', bytes_lit ''''),
      (bytes_lit ''if-range'', bytes_lit ''''),
      (bytes_lit ''if-unmodified-since'', bytes_lit ''''),
      (bytes_lit ''last-modified'', bytes_lit ''''),
      (bytes_lit ''link'', bytes_lit ''''),
      (bytes_lit ''location'', bytes_lit ''''),
      (bytes_lit ''max-forwards'', bytes_lit ''''),
      (bytes_lit ''proxy-authenticate'', bytes_lit ''''),
      (bytes_lit ''proxy-authorization'', bytes_lit ''''),
      (bytes_lit ''range'', bytes_lit ''''),
      (bytes_lit ''referer'', bytes_lit ''''),
      (bytes_lit ''refresh'', bytes_lit ''''),
      (bytes_lit ''retry-after'', bytes_lit ''''),
      (bytes_lit ''server'', bytes_lit ''''),
      (bytes_lit ''set-cookie'', bytes_lit ''''),
      (bytes_lit ''strict-transport-security'', bytes_lit ''''),
      (bytes_lit ''transfer-encoding'', bytes_lit ''''),
      (bytes_lit ''user-agent'', bytes_lit ''''),
      (bytes_lit ''vary'', bytes_lit ''''),
      (bytes_lit ''via'', bytes_lit ''''),
      (bytes_lit ''www-authenticate'', bytes_lit '''')
    ]"

subsection \<open>References\<close>

text \<open>
  Modelled from the spec: the class \<open>Reference\<close> of \<open>hpack_structures.py\<close>, which is
  not among the sources. Following section 3 of the specification, a reference wraps a
  header pair (\<open>obj\<close>), two references are equal (and hash alike) when the wrapped pairs
  have the same bytes, and on the encoder a reference carries a tag \<open>emitted\<close> that is
  one of NOT_EMITTED, IMPLICITLY_EMITTED and EMITTED. The source tests the tag with
  \<open>not ref.emitted\<close>: NOT_EMITTED is the one tag that is false.
\<close>

datatype emitted = NOT_EMITTED | IMPLICITLY_EMITTED | EMITTED

text \<open>
  The encoder's reference set is a dictionary from references to references
  (\<open>self.reference_set[ref] = ref\<close>). When the key is new, key and value are one object.
  When an equal key is already present, Python keeps the old key object and stores the new
  object as the value, so the two carry separate tags from then on. The first loop of
  \<open>encode\<close> and its last loop read and write the tags of the keys;
  \<open>get_from_reference_set\<close> returns the value.
\<close>

datatype slot = Shared emitted | Split emitted emitted

fun key_tag :: "slot \<Rightarrow> emitted" where
  "key_tag (Shared t) = t"
| "key_tag (Split k v) = k"

fun value_tag :: "slot \<Rightarrow> emitted" where
  "value_tag (Shared t) = t"
| "value_tag (Split k v) = v"

fun set_key_tag :: "emitted \<Rightarrow> slot \<Rightarrow> slot" where
  "set_key_tag t (Shared _) = Shared t"
| "set_key_tag t (Split k v) = Split t v"

fun set_value_tag :: "emitted \<Rightarrow> slot \<Rightarrow> slot" where
  "set_value_tag t (Shared _) = Shared t"
| "set_value_tag t (Split k v) = Split k t"

type_synonym refdict = "(header \<times> slot) list"

text \<open>\<open>self.reference_set[ref] = ref\<close> for a fresh reference to \<open>h\<close> tagged EMITTED.\<close>

fun dict_store :: "refdict \<Rightarrow> header \<Rightarrow> refdict" where
  "dict_store [] h = [(h, Shared EMITTED)]"
| "dict_store ((k, s) # rest) h =
     (if k = h then (k, Split (key_tag s) EMITTED) # rest else (k, s) # dict_store rest h)"

text \<open>\<open>del self.reference_set[Reference(h)]\<close>, where the key is present.\<close>

definition dict_delete :: "refdict \<Rightarrow> header \<Rightarrow> refdict" where
  "dict_delete d h = filter (\<lambda>(k, s). k \<noteq> h) d"

text \<open>Assignment to \<open>emitted\<close> of the value stored under \<open>h\<close>.\<close>

definition dict_mark :: "refdict \<Rightarrow> header \<Rightarrow> emitted \<Rightarrow> refdict" where
  "dict_mark d h t = map (\<lambda>(k, s). if k = h then (k, set_value_tag t s) else (k, s)) d"

subsection \<open>The encoder\<close>

text \<open>
  The Huffman coder (\<open>hyper.http20.huffman\<close>) is an external collaborator; the encoder
  holds its \<open>encode\<close> function in the field \<open>huffman_coder\<close>.
\<close>

record Encoder =
  e_header_table :: "header list"
  e_header_table_size :: int
  e_huffman_coder :: "bytes \<Rightarrow> bytes"
  e_reference_set :: refdict

definition Encoder_init :: "(bytes \<Rightarrow> bytes) \<Rightarrow> Encoder" where
  "Encoder_init coder =
     \<lparr>e_header_table = [], e_header_table_size = 4096, e_huffman_coder = coder,
      e_reference_set = []\<rparr>"

text \<open>
  The eviction loop, which the setter of \<open>header_table_size\<close> and
  \<open>_add_to_header_table\<close> both contain: while the size is above the limit, pop the
  oldest entry (IndexError on an empty deque) and delete it from the reference set if it
  is there.
\<close>

function Encoder_evict :: "int \<Rightarrow> int \<Rightarrow> Encoder \<Rightarrow> error + Encoder" where
  "Encoder_evict limit current_size st =
     (if limit < current_size then
        (if e_header_table st = [] then Inl IndexError
         else
           (let header = last (e_header_table st);
                (n, v) = header
            in Encoder_evict limit (current_size - (32 + int (length n) + int (length v)))
                 (st\<lparr>e_header_table := butlast (e_header_table st),
                     e_reference_set := dict_delete (e_reference_set st) header\<rparr>)))
      else Inr st)"
  by pat_completeness auto
termination
  by (relation "measure (\<lambda>(limit, current_size, st). length (e_header_table st))") auto

declare Encoder_evict.simps [simp del]

text \<open>The setter of \<open>Encoder.header_table_size\<close>.\<close>

definition Encoder_set_header_table_size :: "int \<Rightarrow> Encoder \<Rightarrow> error + Encoder" where
  "Encoder_set_header_table_size value st =
     (if value < e_header_table_size st then
        and_then (Encoder_evict value (header_table_size (e_header_table st)) st)
          (\<lambda>st1. Inr (st1\<lparr>e_header_table_size := value\<rparr>))
      else Inr (st\<lparr>e_header_table_size := value\<rparr>))"

text \<open>
  One \<open>for\<close> loop of \<open>matching_header\<close> over a table whose first entry has index
  \<open>idx\<close>: it either returns a full match or ends with the partial match found so far.
\<close>

datatype scan_result = Found int header | Scanned "(int \<times> header option) option"

fun scan :: "header list \<Rightarrow> int \<Rightarrow> bytes \<Rightarrow> bytes \<Rightarrow> (int \<times> header option) option
    \<Rightarrow> scan_result" where
  "scan [] idx name value partial_match = Scanned partial_match"
| "scan ((n, v) # rest) idx name value partial_match =
     (if n = name then
        (if v = value then Found idx (n, v)
         else if partial_match = None then scan rest (idx + 1) name value (Some (idx, None))
         else scan rest (idx + 1) name value partial_match)
      else scan rest (idx + 1) name value partial_match)"

text \<open>
  \<open>matching_header\<close>: \<open>None\<close>, or the index with \<open>Some\<close> of the matching pair for a
  full match and with \<open>None\<close> for a match of the name only.
\<close>

definition matching_header :: "Encoder \<Rightarrow> bytes \<Rightarrow> bytes \<Rightarrow> (int \<times> header option) option" where
  "matching_header st name value =
     (let header_table_size = int (length (e_header_table st)) in
      case scan (e_header_table st) 1 name value None of
        Found i h \<Rightarrow> Some (i, Some h)
      | Scanned partial_match \<Rightarrow>
          (case scan static_table (header_table_size + 1) name value partial_match of
             Found i h \<Rightarrow> Some (i, Some h)
           | Scanned partial_match \<Rightarrow> partial_match))"

text \<open>
  \<open>get_from_reference_set\<close>: the reference stored as the value, given by its \<open>obj\<close>
  and its tag.
\<close>

definition get_from_reference_set :: "Encoder \<Rightarrow> header option \<Rightarrow> (header \<times> emitted) option" where
  "get_from_reference_set st header =
     (case header of
        None \<Rightarrow> None
      | Some h \<Rightarrow>
          (case map_of (e_reference_set st) h of
             None \<Rightarrow> None
           | Some s \<Rightarrow> Some (h, value_tag s)))"

definition Encoder_add_to_header_table :: "header \<Rightarrow> Encoder \<Rightarrow> error + Encoder" where
  "Encoder_add_to_header_table header st =
     (let st1 = st\<lparr>e_header_table := header # e_header_table st\<rparr>;
          actual_size = header_table_size (e_header_table st1)
      in Encoder_evict (e_header_table_size st1) actual_size st1)"

definition encode_indexed :: "int \<Rightarrow> error + bytes" where
  "encode_indexed index = and_then (encode_integer index 7) set_top_bit"

definition encode_literal :: "(bytes \<Rightarrow> bytes) \<Rightarrow> bytes \<Rightarrow> bytes \<Rightarrow> bool \<Rightarrow> bool \<Rightarrow> error + bytes" where
  "encode_literal coder name value indexing huffman =
     (let prefix = (if indexing then [0x40] else [0x00]);
          name = (if huffman then coder name else name);
          value = (if huffman then coder value else value)
      in and_then (encode_integer (int (length name)) 7) (\<lambda>name_len.
         and_then (encode_integer (int (length value)) 7) (\<lambda>value_len.
         and_then (if huffman then set_top_bit name_len else Inr name_len) (\<lambda>name_len.
         and_then (if huffman then set_top_bit value_len else Inr value_len) (\<lambda>value_len.
           Inr (prefix @ name_len @ name @ value_len @ value))))))"

definition encode_indexed_literal :: "(bytes \<Rightarrow> bytes) \<Rightarrow> int \<Rightarrow> bytes \<Rightarrow> bool \<Rightarrow> error + bytes" where
  "encode_indexed_literal coder index value huffman =
     and_then (encode_integer index 4) (\<lambda>name.
       (let value = (if huffman then coder value else value)
        in and_then (encode_integer (int (length value)) 7) (\<lambda>value_len.
           and_then (if huffman then set_top_bit value_len else Inr value_len) (\<lambda>value_len.
             Inr (name @ value_len @ value)))))"

text \<open>\<open>Encoder.add\<close>: the encoded representation and the encoder afterwards.\<close>

definition Encoder_add :: "header \<Rightarrow> bool \<Rightarrow> Encoder \<Rightarrow> error + (bytes \<times> Encoder)" where
  "Encoder_add to_add huffman st =
     (let (name, value) = to_add in
      case matching_header st name value of
        None \<Rightarrow>
          and_then (encode_literal (e_huffman_coder st) name value True huffman) (\<lambda>encoded.
          and_then (Encoder_add_to_header_table to_add st) (\<lambda>st1.
            Inr (encoded, st1\<lparr>e_reference_set := dict_store (e_reference_set st1) to_add\<rparr>)))
      | Some (index, None) \<Rightarrow>
          and_then (encode_indexed_literal (e_huffman_coder st) index value huffman) (\<lambda>encoded.
            Inr (encoded, st))
      | Some (index, Some perfect) \<Rightarrow>
          and_then (encode_indexed index) (\<lambda>encoded.
            if index > int (length (e_header_table st)) then
              and_then (Encoder_add_to_header_table (name, value) st) (\<lambda>st1.
                Inr (encoded,
                     st1\<lparr>e_reference_set := dict_store (e_reference_set st1) (name, value)\<rparr>))
            else
              Inr (encoded, st\<lparr>e_reference_set := dict_store (e_reference_set st) perfect\<rparr>)))"

text \<open>
  \<open>Encoder.remove\<close>. The TypeError of unpacking \<open>None\<close> is caught by the source and
  turned into HPACKEncodingError; \<open>del\<close> of an absent key raises KeyError.
\<close>

definition Encoder_remove :: "header \<Rightarrow> Encoder \<Rightarrow> error + (bytes \<times> Encoder)" where
  "Encoder_remove header st =
     (case matching_header st (fst header) (snd header) of
        None \<Rightarrow> Inl HPACKEncodingError
      | Some (index, match) \<Rightarrow>
          (let max_index = int (length (e_header_table st)) in
           if match = None \<or> index > max_index then Inl HPACKEncodingError
           else
             and_then (encode_indexed index) (\<lambda>encoded.
               if map_of (e_reference_set st) header = None then Inl KeyError
               else Inr (encoded,
                         st\<lparr>e_reference_set := dict_delete (e_reference_set st) header\<rparr>))))"

text \<open>
  The body of the loop \<open>for header in headers\<close> of \<open>Encoder.encode\<close>, on the list of
  fragments produced so far and the encoder. In the branch for a reference that was
  implicitly emitted, \<open>self.add(header)\<close> is called without the \<open>huffman\<close> argument,
  \<open>header\<close> is then rebound to the second component of a new \<open>matching_header\<close>
  (TypeError when that returns \<open>None\<close>), \<open>ref.obj\<close> raises AttributeError when the
  new lookup gives \<open>None\<close>, and \<open>self.add\<close> raises TypeError when it unpacks a
  \<open>header\<close> that is \<open>None\<close>.
\<close>

definition encode_header :: "bool \<Rightarrow> header \<Rightarrow> bytes list \<times> Encoder \<Rightarrow> error + (bytes list \<times> Encoder)" where
  "encode_header huffman header acc =
     (let (header_block, st) = acc;
          m = matching_header st (fst header) (snd header);
          match = (case m of None \<Rightarrow> None | Some (index, match) \<Rightarrow> match)
      in case get_from_reference_set st match of
           None \<Rightarrow>
             and_then (Encoder_add header huffman st) (\<lambda>(encoded, st1).
               Inr (header_block @ [encoded], st1))
         | Some (obj, tag) \<Rightarrow>
             if tag = NOT_EMITTED then
               Inr (header_block,
                    st\<lparr>e_reference_set := dict_mark (e_reference_set st) obj IMPLICITLY_EMITTED\<rparr>)
             else if tag = IMPLICITLY_EMITTED then
               and_then (Encoder_remove obj st) (\<lambda>(e1, st1).
               and_then (Encoder_add header False st1) (\<lambda>(e2, st2).
                 case matching_header st2 (fst header) (snd header) of
                   None \<Rightarrow> Inl TypeError
                 | Some (index2, header2) \<Rightarrow>
                     (case get_from_reference_set st2 header2 of
                        None \<Rightarrow> Inl AttributeError
                      | Some (obj2, tag2) \<Rightarrow>
                          and_then (Encoder_remove obj2 st2) (\<lambda>(e3, st3).
                            case header2 of
                              None \<Rightarrow> Inl TypeError
                            | Some h2 \<Rightarrow>
                                and_then (Encoder_add h2 huffman st3) (\<lambda>(e4, st4).
                                  Inr (header_block @ [e1, e2, e3, e4], st4))))))
             else
               and_then (Encoder_remove obj st) (\<lambda>(e1, st1).
               and_then (Encoder_add header huffman st1) (\<lambda>(e2, st2).
                 Inr (header_block @ [e1, e2], st2))))"

fun encode_headers :: "bool \<Rightarrow> header list \<Rightarrow> bytes list \<times> Encoder \<Rightarrow> error + (bytes list \<times> Encoder)" where
  "encode_headers huffman [] acc = Inr acc"
| "encode_headers huffman (header # rest) acc =
     (case encode_header huffman header acc of
        Inl e \<Rightarrow> Inl e
      | Inr acc1 \<Rightarrow> encode_headers huffman rest acc1)"

text \<open>
  The last loop of \<open>Encoder.encode\<close>, over the keys as they were when \<open>sorted\<close> listed
  them: every key whose tag is still NOT_EMITTED is removed.
\<close>

fun remove_unemitted :: "(header \<times> slot) list \<Rightarrow> bytes list \<times> Encoder \<Rightarrow> error + (bytes list \<times> Encoder)" where
  "remove_unemitted [] acc = Inr acc"
| "remove_unemitted ((obj, s) # rest) acc =
     (if key_tag s = NOT_EMITTED then
        (case Encoder_remove obj (snd acc) of
           Inl e \<Rightarrow> Inl e
         | Inr (encoded, st1) \<Rightarrow> remove_unemitted rest (fst acc @ [encoded], st1))
      else remove_unemitted rest acc)"

text \<open>The list comprehension that turns names and values into byte strings.\<close>

fun coerce_headers :: "(pyval \<times> pyval) list \<Rightarrow> error + header list" where
  "coerce_headers [] = Inr []"
| "coerce_headers ((n, v) # rest) =
     (case to_bytes n of
        Inl e \<Rightarrow> Inl e
      | Inr n1 \<Rightarrow>
          (case to_bytes v of
             Inl e \<Rightarrow> Inl e
           | Inr v1 \<Rightarrow>
               (case coerce_headers rest of
                  Inl e \<Rightarrow> Inl e
                | Inr rest1 \<Rightarrow> Inr ((n1, v1) # rest1))))"

text \<open>
  \<open>Encoder.encode\<close>. A dictionary argument is replaced by its items, so \<open>headers\<close> is
  the list of pairs in either case. The keys are sorted by \<open>obj\<close>, a pair of byte
  strings, which Python compares lexicographically.
\<close>

definition Encoder_encode :: "(pyval \<times> pyval) list \<Rightarrow> bool \<Rightarrow> Encoder \<Rightarrow> error + (bytes \<times> Encoder)" where
  "Encoder_encode headers huffman st =
     (let st0 = st\<lparr>e_reference_set :=
                    map (\<lambda>(k, s). (k, set_key_tag NOT_EMITTED s)) (e_reference_set st)\<rparr>
      in and_then (coerce_headers headers) (\<lambda>headers.
         and_then (encode_headers huffman headers ([], st0)) (\<lambda>(header_block, st1).
         and_then (remove_unemitted (sort_key fst (e_reference_set st1)) (header_block, st1))
           (\<lambda>(header_block, st2). Inr (concat header_block, st2)))))"

subsection \<open>The decoder\<close>

text \<open>
  The decoder's reference set is a Python \<open>set\<close> of references. It is modelled as a
  list without duplicates, in the order of insertion; the order in which Python iterates
  over a set is not specified. The field \<open>huffman_coder\<close> holds the \<open>decode\<close>
  function of the external Huffman coder, which may raise.
\<close>

record Decoder =
  d_header_table :: "header list"
  d_reference_set :: "header list"
  d_header_table_size :: int
  d_huffman_coder :: "bytes \<Rightarrow> error + bytes"

definition Decoder_init :: "(bytes \<Rightarrow> error + bytes) \<Rightarrow> Decoder" where
  "Decoder_init coder =
     \<lparr>d_header_table = [], d_reference_set = [], d_header_table_size = 4096,
      d_huffman_coder = coder\<rparr>"

text \<open>\<open>set.add\<close> and \<open>set.discard\<close> (which is also \<open>set.remove\<close> of a member).\<close>

definition set_add :: "header list \<Rightarrow> header \<Rightarrow> header list" where
  "set_add rs h = (if h \<in> set rs then rs else rs @ [h])"

definition set_discard :: "header list \<Rightarrow> header \<Rightarrow> header list" where
  "set_discard rs h = removeAll h rs"

text \<open>The eviction loop of the decoder's setter and of its \<open>_add_to_header_table\<close>.\<close>

function Decoder_evict :: "int \<Rightarrow> int \<Rightarrow> Decoder \<Rightarrow> error + Decoder" where
  "Decoder_evict limit current_size st =
     (if limit < current_size then
        (if d_header_table st = [] then Inl IndexError
         else
           (let header = last (d_header_table st);
                (n, v) = header
            in Decoder_evict limit (current_size - (32 + int (length n) + int (length v)))
                 (st\<lparr>d_header_table := butlast (d_header_table st),
                     d_reference_set := set_discard (d_reference_set st) header\<rparr>)))
      else Inr st)"
  by pat_completeness auto
termination
  by (relation "measure (\<lambda>(limit, current_size, st). length (d_header_table st))") auto

declare Decoder_evict.simps [simp del]

text \<open>The setter of \<open>Decoder.header_table_size\<close>.\<close>

definition Decoder_set_header_table_size :: "int \<Rightarrow> Decoder \<Rightarrow> error + Decoder" where
  "Decoder_set_header_table_size value st =
     (if value < d_header_table_size st then
        and_then (Decoder_evict value (header_table_size (d_header_table st)) st)
          (\<lambda>st1. Inr (st1\<lparr>d_header_table_size := value\<rparr>))
      else Inr (st\<lparr>d_header_table_size := value\<rparr>))"

definition Decoder_add_to_header_table :: "header \<Rightarrow> Decoder \<Rightarrow> error + Decoder" where
  "Decoder_add_to_header_table new_header st =
     (let st1 = st\<lparr>d_header_table := new_header # d_header_table st\<rparr>;
          actual_size = header_table_size (d_header_table st1)
      in Decoder_evict (d_header_table_size st1) actual_size st1)"

text \<open>\<open>_update_encoding_context\<close>: the number of bytes consumed and the decoder.\<close>

definition update_encoding_context :: "bytes \<Rightarrow> Decoder \<Rightarrow> error + (nat \<times> Decoder)" where
  "update_encoding_context data st =
     (case data of
        [] \<Rightarrow> Inl IndexError
      | b # _ \<Rightarrow>
          if to_byte b = 0x30 then Inr (1, st\<lparr>d_reference_set := []\<rparr>)
          else
            and_then (decode_integer data 4) (\<lambda>(new_size, consumed).
            and_then (Decoder_set_header_table_size new_size st) (\<lambda>st1.
              Inr (consumed, st1))))"

text \<open>
  \<open>_decode_indexed\<close>: the header to emit (\<open>None\<close> when the entry was removed from the
  reference set), the number of bytes consumed and the decoder.
\<close>

definition decode_indexed :: "bytes \<Rightarrow> Decoder \<Rightarrow> error + (header option \<times> nat \<times> Decoder)" where
  "decode_indexed data st =
     and_then (decode_integer data 7) (\<lambda>(index, consumed).
       (let index = index - 1 in
        and_then
          (if index > int (length (d_header_table st)) then
             (let index = index - int (length (d_header_table st)) in
              and_then (py_index static_table index) (\<lambda>header.
              and_then (Decoder_add_to_header_table header st) (\<lambda>st1.
                Inr (header, st1))))
           else
             and_then (py_index (d_header_table st) index) (\<lambda>header. Inr (header, st)))
          (\<lambda>(header, st1).
             if header \<in> set (d_reference_set st1) then
               Inr (None, consumed,
                    st1\<lparr>d_reference_set := set_discard (d_reference_set st1) header\<rparr>)
             else
               Inr (Some header, consumed,
                    st1\<lparr>d_reference_set := set_add (d_reference_set st1) header\<rparr>))))"

text \<open>
  A length-prefixed string of \<open>_decode_literal\<close>: the length with a 7-bit prefix, the
  slice \<open>data[consumed:consumed + length]\<close> (a slice past the end is cut short without
  an exception) and, when the top bit of \<open>data[0]\<close> is set, Huffman decoding. The
  result is the string, the decoded length and the bytes the length took.
\<close>

definition decode_string :: "(bytes \<Rightarrow> error + bytes) \<Rightarrow> bytes \<Rightarrow> error + (bytes \<times> nat \<times> nat)" where
  "decode_string coder data =
     and_then (decode_integer data 7) (\<lambda>(len, consumed).
       (let len = nat len;
            raw = take len (drop consumed data)
        in case data of
             [] \<Rightarrow> Inl IndexError
           | b # _ \<Rightarrow>
               if to_byte b AND 0x80 \<noteq> 0
               then and_then (coder raw) (\<lambda>decoded. Inr (decoded, len, consumed))
               else Inr (raw, len, consumed)))"

text \<open>
  The name of \<open>_decode_literal\<close>: the name, the bytes it took (\<open>total_consumed\<close>) and
  the rest of the data, which starts at the length of the value.
\<close>

definition decode_name :: "bytes \<Rightarrow> bool \<Rightarrow> Decoder \<Rightarrow> error + (bytes \<times> nat \<times> bytes)" where
  "decode_name data should_index st =
     (case data of
        [] \<Rightarrow> Inl IndexError
      | b # _ \<Rightarrow>
          (let indexed_name = (if should_index then to_byte b AND 0x3F else to_byte b);
               name_len = (if should_index then 6 else 4)
           in if indexed_name \<noteq> 0 then
                and_then (decode_integer data name_len) (\<lambda>(index, consumed).
                  (let index = index - 1 in
                   and_then
                     (if index \<ge> int (length (d_header_table st))
                      then py_index static_table (index - int (length (d_header_table st)))
                      else py_index (d_header_table st) index)
                     (\<lambda>entry. Inr (fst entry, consumed, drop consumed data))))
              else
                (let data = drop 1 data in
                 and_then (decode_string (d_huffman_coder st) data) (\<lambda>(name, len, consumed).
                   Inr (name, consumed + len + 1, drop (consumed + len) data)))))"

text \<open>\<open>_decode_literal\<close>.\<close>

definition decode_literal :: "bytes \<Rightarrow> bool \<Rightarrow> Decoder \<Rightarrow> error + (header option \<times> nat \<times> Decoder)" where
  "decode_literal data should_index st =
     and_then (decode_name data should_index st) (\<lambda>(name, total_consumed, data).
     and_then (decode_string (d_huffman_coder st) data) (\<lambda>(value, len, consumed).
       (let total_consumed = total_consumed + (len + consumed);
            header = (name, value)
        in if should_index then
             and_then (Decoder_add_to_header_table header st) (\<lambda>st1.
               Inr (Some header, total_consumed,
                    st1\<lparr>d_reference_set := set_add (d_reference_set st1) header\<rparr>))
           else Inr (Some header, total_consumed, st))))"

definition decode_literal_no_index :: "bytes \<Rightarrow> Decoder \<Rightarrow> error + (header option \<times> nat \<times> Decoder)" where
  "decode_literal_no_index data st = decode_literal data False st"

definition decode_literal_index :: "bytes \<Rightarrow> Decoder \<Rightarrow> error + (header option \<times> nat \<times> Decoder)" where
  "decode_literal_index data st = decode_literal data True st"

text \<open>
  The body of the \<open>while\<close> loop of \<open>Decoder.decode\<close> at position \<open>current_index\<close>:
  the header to append, if any, the number of bytes consumed and the decoder. The context
  update receives the whole of \<open>data\<close>, the other three representations receive
  \<open>data[current_index:]\<close>.
\<close>

definition decode_step :: "bytes \<Rightarrow> nat \<Rightarrow> Decoder \<Rightarrow> error + (header option \<times> nat \<times> Decoder)" where
  "decode_step data current_index st =
     (let current = to_byte (data ! current_index);
          indexed = (current AND 0x80 \<noteq> 0);
          literal_index = (current AND 0x40 \<noteq> 0);
          encoding_update = (current AND 0x20 \<noteq> 0)
      in if indexed then decode_indexed (drop current_index data) st
         else if literal_index then decode_literal_index (drop current_index data) st
         else if encoding_update then
           and_then (update_encoding_context data st) (\<lambda>(consumed, st1).
             Inr (None, consumed, st1))
         else decode_literal_no_index (drop current_index data) st)"

text \<open>Every representation consumes at least one byte, so the loop of \<open>decode\<close> ends.\<close>

lemma decode_integer_loop_consumed:
  "decode_integer_loop data index number = Inr (v, c) \<Longrightarrow> 1 \<le> c"
proof (induction data index number rule: decode_integer_loop.induct)
  case (1 data index number)
  show ?case
  proof (cases "index + 1 < length data \<and> to_byte (data ! (index + 1)) \<ge> 128")
    case True
    then have "decode_integer_loop data index number
        = decode_integer_loop data (index + 1)
            (number + (to_byte (data ! (index + 1)) - 128) * multiple (index + 1))"
      by (subst decode_integer_loop.simps) (simp add: Let_def)
    with "1.prems" True "1.IH" [OF refl _ refl] show ?thesis by simp
  next
    case False
    with "1.prems" show ?thesis
      by (subst (asm) decode_integer_loop.simps) (auto simp: Let_def split: if_splits)
  qed
qed

lemma decode_integer_consumed:
  "decode_integer data prefix_bits = Inr (v, c) \<Longrightarrow> 1 \<le> c"
  by (auto simp: decode_integer_def Let_def split: if_splits list.splits
      dest: decode_integer_loop_consumed)

lemma decode_indexed_consumed:
  "decode_indexed data st = Inr (h, c, st1) \<Longrightarrow> 1 \<le> c"
proof -
  assume a: "decode_indexed data st = Inr (h, c, st1)"
  then obtain index consumed where di: "decode_integer data 7 = Inr (index, consumed)"
    by (cases "decode_integer data 7") (auto simp: decode_indexed_def)
  from a di have "c = consumed"
    by (auto simp: decode_indexed_def Let_def split: if_splits sum.splits
        elim!: and_then.elims)
  with di show ?thesis by (auto dest: decode_integer_consumed)
qed

lemma decode_string_consumed:
  "decode_string coder data = Inr (s, len, c) \<Longrightarrow> 1 \<le> c"
proof -
  assume a: "decode_string coder data = Inr (s, len, c)"
  then obtain l consumed where di: "decode_integer data 7 = Inr (l, consumed)"
    by (cases "decode_integer data 7") (auto simp: decode_string_def)
  from a di have "c = consumed"
    by (auto simp: decode_string_def Let_def split: if_splits list.splits
        elim!: and_then.elims)
  with di show ?thesis by (auto dest: decode_integer_consumed)
qed

lemma decode_literal_consumed:
  "decode_literal data should_index st = Inr (h, c, st1) \<Longrightarrow> 1 \<le> c"
proof -
  assume a: "decode_literal data should_index st = Inr (h, c, st1)"
  then obtain name tc rest where dn: "decode_name data should_index st = Inr (name, tc, rest)"
    by (cases "decode_name data should_index st") (auto simp: decode_literal_def)
  with a obtain v len consumed
    where ds: "decode_string (d_huffman_coder st) rest = Inr (v, len, consumed)"
    by (cases "decode_string (d_huffman_coder st) rest") (auto simp: decode_literal_def)
  from a dn ds have "c = tc + (len + consumed)"
    by (auto simp: decode_literal_def Let_def split: if_splits elim!: and_then.elims)
  with decode_string_consumed [OF ds] show ?thesis by simp
qed

lemma update_encoding_context_consumed:
  "update_encoding_context data st = Inr (c, st1) \<Longrightarrow> 1 \<le> c"
proof -
  assume a: "update_encoding_context data st = Inr (c, st1)"
  show ?thesis
  proof (cases "data \<noteq> [] \<and> to_byte (hd data) \<noteq> 0x30")
    case True
    with a obtain n consumed where di: "decode_integer data 4 = Inr (n, consumed)"
      by (cases data; cases "decode_integer data 4")
        (auto simp: update_encoding_context_def)
    from a di True have "c = consumed"
      by (cases data) (auto simp: update_encoding_context_def elim!: and_then.elims)
    with di show ?thesis by (auto dest: decode_integer_consumed)
  next
    case False
    with a show ?thesis
      by (cases data) (auto simp: update_encoding_context_def split: if_splits)
  qed
qed

lemma decode_step_consumed:
  "decode_step data current_index st = Inr (h, c, st1) \<Longrightarrow> 1 \<le> c"
  by (auto simp: decode_step_def Let_def decode_literal_index_def decode_literal_no_index_def
      split: if_splits
      dest: decode_indexed_consumed decode_literal_consumed update_encoding_context_consumed
      elim!: and_then.elims)

text \<open>The \<open>while current_index < data_len\<close> loop of \<open>Decoder.decode\<close>.\<close>

function decode_loop :: "bytes \<Rightarrow> nat \<Rightarrow> header list \<Rightarrow> Decoder \<Rightarrow> error + (header list \<times> Decoder)" where
  "decode_loop data current_index headers st =
     (if current_index < length data then
        (case decode_step data current_index st of
           Inl e \<Rightarrow> Inl e
         | Inr (header, consumed, st1) \<Rightarrow>
             decode_loop data (current_index + consumed)
               (case header of None \<Rightarrow> headers | Some h \<Rightarrow> headers @ [h]) st1)
      else Inr (headers, st))"
  by pat_completeness auto
termination
proof (relation "measure (\<lambda>(data, current_index, headers, st). length data - current_index)")
  show "wf (measure (\<lambda>(data, current_index, headers, st). length data - current_index))"
    by simp
next
  fix data :: bytes and current_index :: nat and headers :: "header list" and st :: Decoder
    and r x y consumed st1
  assume "current_index < length data" and "decode_step data current_index st = Inr r"
    and "(x, y) = r" and "(consumed, st1) = y"
  then have "1 \<le> consumed" by (auto dest: decode_step_consumed)
  with \<open>current_index < length data\<close>
  show "((data, current_index + consumed, (case x of None \<Rightarrow> headers | Some h \<Rightarrow> headers @ [h]), st1),
         (data, current_index, headers, st))
        \<in> measure (\<lambda>(data, current_index, headers, st). length data - current_index)"
    by simp
qed

declare decode_loop.simps [simp del]

text \<open>
  The loop after the input is used up: every member of the reference set that is not
  among the headers yet is appended. Python visits the members of a set in an order that
  depends on their hashes; the model visits them in the order of insertion, which is one
  of the possible orders. Only the order of two or more appended headers depends on it,
  and no property below is about a block that leaves more than one reference.
\<close>

fun append_missing :: "header list \<Rightarrow> header list \<Rightarrow> header list" where
  "append_missing [] headers = headers"
| "append_missing (obj # rest) headers =
     append_missing rest (if obj \<in> set headers then headers else headers @ [obj])"

text \<open>The list comprehension that decodes names and values from UTF-8.\<close>

fun headers_text :: "header list \<Rightarrow> error + (unicode \<times> unicode) list" where
  "headers_text [] = Inr []"
| "headers_text ((n, v) # rest) =
     (case utf8_decode n of
        Inl e \<Rightarrow> Inl e
      | Inr n1 \<Rightarrow>
          (case utf8_decode v of
             Inl e \<Rightarrow> Inl e
           | Inr v1 \<Rightarrow>
               (case headers_text rest of
                  Inl e \<Rightarrow> Inl e
                | Inr rest1 \<Rightarrow> Inr ((n1, v1) # rest1))))"

text \<open>\<open>Decoder.decode\<close>: the list of headers as text and the decoder afterwards.\<close>

definition Decoder_decode :: "bytes \<Rightarrow> Decoder \<Rightarrow> error + ((unicode \<times> unicode) list \<times> Decoder)" where
  "Decoder_decode data st =
     and_then (decode_loop data 0 [] st) (\<lambda>(headers, st1).
     and_then (headers_text (append_missing (d_reference_set st1) headers)) (\<lambda>result.
       Inr (result, st1)))"

subsection \<open>Notions used by the properties\<close>

text \<open>The request of the first end-to-end scenario of the specification (section 8).\<close>

definition request_headers :: "(pyval \<times> pyval) list" where
  "request_headers =
     [(Bytes (bytes_lit '':method''), Bytes (bytes_lit ''GET'')),
      (Bytes (bytes_lit '':scheme''), Bytes (bytes_lit ''http'')),
      (Bytes (bytes_lit '':path''), Bytes (bytes_lit ''/'')),
      (Bytes (bytes_lit '':authority''), Bytes (bytes_lit ''www.example.com''))]"

text \<open>The header block that \<open>Encoder.encode\<close> returned, without the encoder.\<close>

definition block_of :: "error + (bytes \<times> Encoder) \<Rightarrow> error + bytes" where
  "block_of r = (case r of Inl e \<Rightarrow> Inl e | Inr (block, st) \<Rightarrow> Inr block)"

text \<open>
  A Unicode scalar value: a code point up to U+10FFFF that is not a surrogate. These are
  the code points that UTF-8 encodes.
\<close>

definition scalar_value :: "nat \<Rightarrow> bool" where
  "scalar_value c = (c < 0xD800 \<or> (0xE000 \<le> c \<and> c < 0x110000))"

text \<open>
  \<open>r\<close> is the UTF-8 encoding of the text \<open>s\<close>: the strict UTF-8 decoder reads
  \<open>s\<close> from \<open>r\<close>.
\<close>

definition utf8_of :: "unicode \<Rightarrow> bytes \<Rightarrow> bool" where
  "utf8_of s r = (utf8_decode r = Inr s)"

text \<open>
  A value that can be turned into bytes: the text of a \<open>str\<close>, or \<open>str()\<close> of
  another object, holds scalar values only.
\<close>

fun encodable :: "pyval \<Rightarrow> bool" where
  "encodable (Bytes b) = True"
| "encodable (Str s) = list_all scalar_value s"
| "encodable (Other x) = list_all scalar_value (py_str x)"

text \<open>
  What the coercion has to give for a value: the bytes themselves, the UTF-8 encoding of a
  \<open>str\<close>, the UTF-8 encoding of \<open>str()\<close> of another object.
\<close>

fun converted :: "pyval \<Rightarrow> bytes \<Rightarrow> bool" where
  "converted (Bytes b) r = (r = b)"
| "converted (Str s) r = utf8_of s r"
| "converted (Other x) r = utf8_of (py_str x) r"

text \<open>
  The containment invariant of section 3 of the specification: every header pair in the
  reference set is in the dynamic header table or in the static table.
\<close>

definition Encoder_refs_in_tables :: "Encoder \<Rightarrow> bool" where
  "Encoder_refs_in_tables st =
     list_all (\<lambda>h. h \<in> set (e_header_table st) \<or> h \<in> set static_table)
       (map fst (e_reference_set st))"

definition Decoder_refs_in_tables :: "Decoder \<Rightarrow> bool" where
  "Decoder_refs_in_tables st =
     list_all (\<lambda>h. h \<in> set (d_header_table st) \<or> h \<in> set static_table)
       (d_reference_set st)"

text \<open>
  An integer with the given prefix width that the end of the input cuts off: there is no
  byte at all, or the prefix is all ones and every byte after it has its continuation bit
  set.
\<close>

definition truncated_integer :: "bytes \<Rightarrow> nat \<Rightarrow> bool" where
  "truncated_integer data prefix_bits =
     (case data of
        [] \<Rightarrow> True
      | b # rest \<Rightarrow>
          to_byte b AND (2 ^ prefix_bits - 1) = 2 ^ prefix_bits - 1
          \<and> list_all (\<lambda>x. 128 \<le> to_byte x) rest)"

text \<open>An indexed representation whose index is above the combined size of the tables.\<close>

definition index_beyond_tables :: "bytes \<Rightarrow> Decoder \<Rightarrow> bool" where
  "index_beyond_tables data st =
     (case decode_integer data 7 of
        Inl e \<Rightarrow> False
      | Inr (w, consumed) \<Rightarrow>
          w > int (length (d_header_table st)) + int (length static_table))"

text \<open>
  A literal representation whose name is cut off: the name index (prefix width 6 or 4),
  or the length of a literal name, is a truncated integer.
\<close>

definition name_truncated :: "bytes \<Rightarrow> bool \<Rightarrow> bool" where
  "name_truncated rep should_index =
     (case rep of
        [] \<Rightarrow> False
      | b # rest \<Rightarrow>
          if (if should_index then to_byte b AND 0x3F else to_byte b) \<noteq> 0
          then truncated_integer rep (if should_index then 6 else 4)
          else truncated_integer rest 7)"

text \<open>A literal representation whose name is read, and whose value length is cut off.\<close>

definition value_length_truncated :: "bytes \<Rightarrow> bool \<Rightarrow> Decoder \<Rightarrow> bool" where
  "value_length_truncated rep should_index st =
     (case decode_name rep should_index st of
        Inl e \<Rightarrow> False
      | Inr (name, total_consumed, rest) \<Rightarrow> truncated_integer rest 7)"

text \<open>
  The malformed representations for which the decoder is shown to raise: an indexed
  representation with a truncated index or an index beyond the tables, and a literal
  representation with a truncated name or a truncated value length.
\<close>

definition malformed :: "bytes \<Rightarrow> Decoder \<Rightarrow> bool" where
  "malformed rep st =
     (case rep of
        [] \<Rightarrow> False
      | b # rest \<Rightarrow>
          if to_byte b AND 0x80 \<noteq> 0 then
            truncated_integer rep 7 \<or> index_beyond_tables rep st
          else if to_byte b AND 0x40 \<noteq> 0 then
            name_truncated rep True \<or> value_length_truncated rep True st
          else if to_byte b AND 0x20 \<noteq> 0 then False
          else name_truncated rep False \<or> value_length_truncated rep False st)"

text \<open>
  The loop of \<open>Decoder.decode\<close> after at most \<open>k\<close> rounds, started at position
  \<open>current_index\<close>: the position, the headers emitted so far and the decoder at that
  moment, or the exception that one of these rounds raised.
\<close>

fun decode_rounds :: "nat \<Rightarrow> bytes \<Rightarrow> nat \<Rightarrow> header list \<Rightarrow> Decoder
    \<Rightarrow> error + (nat \<times> header list \<times> Decoder)" where
  "decode_rounds 0 data current_index headers st = Inr (current_index, headers, st)"
| "decode_rounds (Suc k) data current_index headers st =
     (if current_index < length data then
        (case decode_step data current_index st of
           Inl e \<Rightarrow> Inl e
         | Inr (header, consumed, st1) \<Rightarrow>
             decode_rounds k data (current_index + consumed)
               (case header of None \<Rightarrow> headers | Some h \<Rightarrow> headers @ [h]) st1)
      else Inr (current_index, headers, st))"

section \<open>Properties\<close>

subsection \<open>The integer codec\<close>

lemma or_128: 
  assumes "0 \<le> (x::int)" "x < 128" shows "x OR 128 = x + 128"
proof -
  have "\<not> bit x 7" using assms by (simp add: bit_iff_odd)
  then have "x AND 128 = 0" using and_exp_eq_0_iff_not_bit [of x 7] by simp
  then show ?thesis by (simp add: disjunctive_add_eq_or)
qed

lemma mask_val: 
  assumes "N \<le> 8" shows "drop_bit (8 - N) (255::int) = 2 ^ N - 1"
proof -
  have "N \<in> {0, 1, 2, 3, 4, 5, 6, 7, 8}" using assms by auto
  then show ?thesis by (auto simp: drop_bit_eq_div)
qed

lemma and_mask_small: "0 \<le> (x::int) \<Longrightarrow> x < 2 ^ N \<Longrightarrow> x AND (2 ^ N - 1) = x"
  using take_bit_int_eq_self [of x N] by (simp add: take_bit_eq_mask mask_eq_exp_minus_1)

lemma pow_le: "N \<le> 8 \<Longrightarrow> (2::int) ^ N \<le> 256"
  using power_increasing [of N 8 "2::int"] by simp

lemma to_byte_word_of_int: "0 \<le> x \<Longrightarrow> x < 256 \<Longrightarrow> to_byte (word_of_int x) = x"
  by (simp add: to_byte_def uint_word_of_int)

lemma encode_integer_loop_range:
  "0 \<le> x \<Longrightarrow> list_all (\<lambda>b. 0 \<le> b \<and> b < 256) (encode_integer_loop x)"
proof (induction x rule: encode_integer_loop.induct)
  case (1 x)
  show ?case
  proof (cases "x \<ge> 128")
    case True
    with 1 have "list_all (\<lambda>b. 0 \<le> b \<and> b < 256) (encode_integer_loop (x div 128))" by simp
    with True show ?thesis by (subst encode_integer_loop.simps) simp
  next
    case False
    with 1 show ?thesis by (subst encode_integer_loop.simps) simp
  qed
qed

lemma encode_integer_loop_spec:
  "0 \<le> x \<Longrightarrow> encode_integer_loop x = spec_continuation x"
proof (induction x rule: encode_integer_loop.induct)
  case (1 x)
  show ?case
  proof (cases "x \<ge> 128")
    case True
    with 1 have "encode_integer_loop (x div 128) = spec_continuation (x div 128)" by simp
    with True show ?thesis
      by (simp add: encode_integer_loop.simps [of x] spec_continuation.simps [of x] or_128)
  next
    case False
    then show ?thesis by (simp add: encode_integer_loop.simps [of x] spec_continuation.simps [of x])
  qed
qed

lemma decode_encode_loop:
  "0 \<le> x \<Longrightarrow> length pre = Suc k \<Longrightarrow>
   decode_integer_loop (pre @ map word_of_int (encode_integer_loop x) @ post) k number
     = Inr (number + x * 128 ^ k, Suc k + length (encode_integer_loop x))"
proof (induction x arbitrary: pre k number rule: encode_integer_loop.induct)
  case (1 x)
  let ?data = "pre @ map word_of_int (encode_integer_loop x) @ post"
  show ?case
  proof (cases "x \<ge> 128")
    case True
    define b :: byte where "b = word_of_int (x mod 128 + 128)"
    have enc: "encode_integer_loop x = (x mod 128 + 128) # encode_integer_loop (x div 128)"
      using True by (simp add: encode_integer_loop.simps [of x])
    have data: "?data = (pre @ [b]) @ map word_of_int (encode_integer_loop (x div 128)) @ post"
      by (simp add: enc b_def)
    have nth: "?data ! Suc k = b" using "1.prems" by (simp add: data nth_append)
    have len: "Suc k < length ?data" using "1.prems" by (simp add: enc)
    have tb: "to_byte b = x mod 128 + 128" unfolding b_def by (rule to_byte_word_of_int) auto
    have IH: "decode_integer_loop ((pre @ [b]) @ map word_of_int (encode_integer_loop (x div 128)) @ post)
            (Suc k) (number + (x mod 128) * 128 ^ k)
         = Inr (number + (x mod 128) * 128 ^ k + (x div 128) * 128 ^ Suc k,
                Suc (Suc k) + length (encode_integer_loop (x div 128)))"
      using True "1.prems" by (intro "1.IH") auto
    have "decode_integer_loop ?data k number =
          decode_integer_loop ?data (Suc k) (number + (x mod 128) * 128 ^ k)"
      using len nth tb by (subst decode_integer_loop.simps) (simp add: Let_def multiple_def)
    also have "\<dots> = Inr (number + x * 128 ^ k, Suc k + length (encode_integer_loop x))"
    proof -
      have "a * 128 ^ k + c * 128 ^ Suc k = (a + 128 * c) * 128 ^ k" for a c :: int
        by (simp add: algebra_simps)
      then have "x mod 128 * 128 ^ k + x div 128 * 128 ^ Suc k = x * 128 ^ k"
        by (simp only: mod_mult_div_eq)
      then show ?thesis using IH unfolding data [symmetric] by (simp add: enc algebra_simps)
    qed
    finally show ?thesis .
  next
    case False
    define b :: byte where "b = word_of_int x"
    have enc: "encode_integer_loop x = [x]"
      using False by (simp add: encode_integer_loop.simps [of x])
    have nth: "?data ! Suc k = b" using "1.prems" by (simp add: enc nth_append b_def)
    have len: "Suc k < length ?data" using "1.prems" by (simp add: enc)
    have tb: "to_byte b = x" unfolding b_def using False "1.prems" by (intro to_byte_word_of_int) auto
    show ?thesis using False len nth tb
      by (subst decode_integer_loop.simps) (simp add: Let_def enc multiple_def)
  qed
qed

lemma integer_codec_roundtrip_general:
  assumes "0 \<le> I" "N \<le> 8"
  shows "\<exists>bs. encode_integer I N = Inr bs \<and> decode_integer bs N = Inr (I, length bs)"
proof (cases "I < 2 ^ N - 1")
  case True
  define b :: byte where "b = word_of_int I"
  have lt: "I < 256" using True pow_le [OF assms(2)] by simp
  have enc: "encode_integer I N = Inr [b]"
    using True assms lt by (simp add: encode_integer_def bytearray_def b_def)
  have tb: "to_byte b = I" unfolding b_def using assms lt by (intro to_byte_word_of_int) auto
  have "decode_integer [b] N = Inr (I, 1)"
    using True assms tb by (simp add: decode_integer_def mask_val and_mask_small)
  with enc show ?thesis by simp
next
  case False
  define M :: int where "M = 2 ^ N - 1"
  define b :: byte where "b = word_of_int M"
  let ?tl = "encode_integer_loop (I - M)"
  have M: "0 \<le> M" "M < 256" "M < 2 ^ N" using pow_le [OF assms(2)] by (auto simp: M_def)
  have rng: "list_all (\<lambda>b. 0 \<le> b \<and> b < 256) ?tl"
    using False by (intro encode_integer_loop_range) (simp add: M_def)
  have enc: "encode_integer I N = Inr (b # map word_of_int ?tl)"
    using False M rng by (simp add: encode_integer_def bytearray_def M_def b_def)
  have tb: "to_byte b = M" unfolding b_def using M by (intro to_byte_word_of_int) auto
  have first: "to_byte b AND (2 ^ N - 1) = M"
    using M and_mask_small [of M N] by (simp add: tb)
  have "decode_integer_loop ([b] @ map word_of_int ?tl @ []) 0 M
      = Inr (M + (I - M) * 128 ^ 0, Suc 0 + length ?tl)"
    using False by (intro decode_encode_loop) (auto simp: M_def)
  then have "decode_integer (b # map word_of_int ?tl) N = Inr (I, 1 + length ?tl)"
    using assms first by (simp add: decode_integer_def mask_val M_def)
  with enc show ?thesis by simp
qed


text \<open>
  C9. For every prefix width \<open>N\<close> from 1 to 8 and every \<open>I\<close> among 0, \<open>2^N - 2\<close>,
  \<open>2^N - 1\<close>, \<open>2^N\<close>, \<open>2^16\<close> and \<open>2^21 - 1\<close>, \<open>encode_integer\<close> returns a
  byte string, and \<open>decode_integer\<close> on that byte string returns \<open>I\<close> together with
  the length of the byte string.
\<close>

theorem integer_codec_roundtrip_boundaries:
  assumes "1 \<le> N" and "N \<le> 8"
    and "I \<in> {0, 2 ^ N - 2, 2 ^ N - 1, 2 ^ N, 2 ^ 16, 2 ^ 21 - 1}"
  shows "\<exists>bs. encode_integer I N = Inr bs \<and> decode_integer bs N = Inr (I, length bs)"
proof -
  have "(2::int) ^ 1 \<le> 2 ^ N" using assms(1) by (intro power_increasing) auto
  then have "0 \<le> I" using assms(3) by auto
  then show ?thesis using assms(2) by (rule integer_codec_roundtrip_general)
qed

theorem integer_codec_roundtrip_boundaries_witness:
  "(1::nat) \<le> 5 \<and> (5::nat) \<le> 8
   \<and> (2 ^ 16 :: int) \<in> {0, 2 ^ 5 - 2, 2 ^ 5 - 1, 2 ^ 5, 2 ^ 16, 2 ^ 21 - 1}
   \<and> (\<exists>bs. encode_integer (2 ^ 16) 5 = Inr bs \<and> decode_integer bs 5 = Inr (2 ^ 16, length bs))"
  using integer_codec_roundtrip_boundaries [of 5 "2 ^ 16"] by simp

text \<open>
  C7, as stated, computes the continuation bytes from \<open>I\<close> itself
  (\<open>spec_encode_long\<close>). For \<open>I = 1337\<close> and \<open>N = 5\<close> the source emits 31, 154, 10
  while the steps as worded give 31, 185, 10.
\<close>

theorem encode_integer_long_form_counterexample:
  "encode_integer 1337 5 = Inr [31, 154, 10]
   \<and> bytearray (spec_encode_long 1337 5) = Inr [31, 185, 10]
   \<and> encode_integer 1337 5 \<noteq> bytearray (spec_encode_long 1337 5)"
  by (simp add: encode_integer_def spec_encode_long_def bytearray_def
      encode_integer_loop.simps [of 1306] encode_integer_loop.simps [of 10]
      spec_continuation.simps [of 1337] spec_continuation.simps [of 10])

text \<open>
  C7, amended. For every prefix width \<open>N\<close> from 1 to 8 and every \<open>I \<ge> 2^N - 1\<close>,
  \<open>encode_integer\<close> emits the byte \<open>M = 2^N - 1\<close> and then the continuation bytes of
  the remainder \<open>R = I - M\<close>: \<open>(R mod 128) | 0x80\<close> while \<open>R \<ge> 128\<close>, dividing
  \<open>R\<close> by 128 each time, and at last \<open>R\<close> itself, which is below 128.
\<close>

theorem encode_integer_long_form:
  assumes "1 \<le> N" and "N \<le> 8" and "2 ^ N - 1 \<le> I"
  shows "encode_integer I N
           = Inr (map word_of_int ((2 ^ N - 1) # spec_continuation (I - (2 ^ N - 1))))"
proof -
  have M: "(2::int) ^ N - 1 < 256" "(0::int) \<le> 2 ^ N - 1" using pow_le [OF assms(2)] by auto
  have nonneg: "0 \<le> I - (2 ^ N - 1)" using assms(3) by simp
  have "list_all (\<lambda>b. 0 \<le> b \<and> b < 256) (encode_integer_loop (I - (2 ^ N - 1)))"
    using nonneg by (rule encode_integer_loop_range)
  then show ?thesis
    using assms(3) M encode_integer_loop_spec [OF nonneg]
    by (simp add: encode_integer_def bytearray_def)
qed

theorem encode_integer_long_form_witness:
  "(1::nat) \<le> 5 \<and> (5::nat) \<le> 8 \<and> (2::int) ^ 5 - 1 \<le> 1337
   \<and> encode_integer 1337 5
         = Inr (map word_of_int ((2 ^ 5 - 1) # spec_continuation (1337 - (2 ^ 5 - 1))))"
  using encode_integer_long_form [of 5 1337] by simp


subsection \<open>Evaluation of concrete runs\<close>

lemmas enc_defs = Encoder_encode_def encode_header_def matching_header_def
  get_from_reference_set_def Encoder_add_def Encoder_remove_def Encoder_add_to_header_table_def
  encode_indexed_def encode_literal_def encode_indexed_literal_def set_top_bit_def
  encode_integer_def bytearray_def header_table_size_def Encoder_init_def
  dict_delete_def dict_mark_def static_table_def bytes_lit_def Let_def
  Encoder_evict.simps encode_integer_loop.simps Encoder_set_header_table_size_def

lemmas dec_defs = Decoder_decode_def decode_loop.simps decode_step_def decode_indexed_def
  decode_literal_def decode_literal_index_def decode_literal_no_index_def decode_name_def
  decode_string_def update_encoding_context_def Decoder_set_header_table_size_def
  Decoder_add_to_header_table_def Decoder_evict.simps decode_integer_def
  decode_integer_loop.simps multiple_def to_byte_def py_index_def set_add_def set_discard_def
  header_table_size_def Decoder_init_def static_table_def bytes_lit_def text_lit_def Let_def
  is_continuation_def payload_def

subsection \<open>Malformed input\<close>

lemma decode_integer_loop_truncated:
  "list_all (\<lambda>x. 128 \<le> to_byte x) (drop (index + 1) data) \<Longrightarrow>
   decode_integer_loop data index number = Inl IndexError"
proof (induction data index number rule: decode_integer_loop.induct)
  case (1 data index number)
  show ?case
  proof (cases "index + 1 < length data")
    case True
    then have d: "drop (index + 1) data = data ! (index + 1) # drop (index + 1 + 1) data"
      by (simp add: Cons_nth_drop_Suc)
    with "1.prems" have hi: "128 \<le> to_byte (data ! (index + 1))"
      and rest: "list_all (\<lambda>x. 128 \<le> to_byte x) (drop (index + 1 + 1) data)"
      by simp_all
    have "decode_integer_loop data (index + 1)
            (number + (to_byte (data ! (index + 1)) - 128) * multiple (index + 1)) = Inl IndexError"
      using True hi rest by (intro "1.IH" [OF refl _ refl]) auto
    with True hi show ?thesis by (subst decode_integer_loop.simps) (simp add: Let_def)
  next
    case False
    then show ?thesis by (subst decode_integer_loop.simps) (simp add: Let_def)
  qed
qed

lemma decode_integer_truncated:
  assumes "prefix_bits \<le> 8" and "truncated_integer data prefix_bits"
  shows "decode_integer data prefix_bits = Inl IndexError"
proof (cases data)
  case Nil
  with assms(1) show ?thesis by (simp add: decode_integer_def)
next
  case (Cons b rest)
  with assms(2) have m: "to_byte b AND (2 ^ prefix_bits - 1) = 2 ^ prefix_bits - 1"
    and r: "list_all (\<lambda>x. 128 \<le> to_byte x) rest"
    by (simp_all add: truncated_integer_def)
  from r have "decode_integer_loop (b # rest) 0 (2 ^ prefix_bits - 1) = Inl IndexError"
    by (intro decode_integer_loop_truncated) simp
  with assms(1) m show ?thesis by (simp add: decode_integer_def Cons mask_val)
qed

lemma length_static_table: "length static_table = 61"
  by (simp add: static_table_def)

lemma decode_indexed_beyond:
  assumes "index_beyond_tables data st"
  shows "decode_indexed data st = Inl IndexError"
proof -
  from assms obtain w consumed where di: "decode_integer data 7 = Inr (w, consumed)"
    and w: "w > int (length (d_header_table st)) + 61"
    by (auto simp: index_beyond_tables_def length_static_table split: sum.splits)
  have "py_index static_table (w - 1 - int (length (d_header_table st))) = Inl IndexError"
    using w by (simp add: py_index_def length_static_table)
  with di w show ?thesis by (simp add: decode_indexed_def)
qed

lemma decode_string_truncated:
  "truncated_integer data 7 \<Longrightarrow> decode_string coder data = Inl IndexError"
  by (simp add: decode_string_def decode_integer_truncated)


lemma decode_literal_malformed:
  assumes "name_truncated (b # rest) should_index
           \<or> value_length_truncated (b # rest) should_index st"
  shows "decode_literal (b # rest) should_index st = Inl IndexError"
  using assms
proof
  assume "name_truncated (b # rest) should_index"
  then have "decode_name (b # rest) should_index st = Inl IndexError"
    by (auto simp: name_truncated_def decode_name_def decode_integer_truncated
        decode_string_truncated split: if_splits)
  then show ?thesis by (simp add: decode_literal_def)
next
  assume "value_length_truncated (b # rest) should_index st"
  then obtain name total_consumed data
    where n: "decode_name (b # rest) should_index st = Inr (name, total_consumed, data)"
      and t: "truncated_integer data 7"
    by (auto simp: value_length_truncated_def split: sum.splits)
  from t have "decode_string (d_huffman_coder st) data = Inl IndexError"
    by (rule decode_string_truncated)
  with n show ?thesis by (simp add: decode_literal_def)
qed

lemma decode_step_malformed:
  assumes "i < length data" and "malformed (drop i data) st"
  shows "decode_step data i st = Inl IndexError"
proof -
  obtain b rest where d: "drop i data = b # rest" and b: "data ! i = b"
    using assms(1) by (metis Cons_nth_drop_Suc)
  show ?thesis
  proof (cases "to_byte b AND 0x80 \<noteq> 0")
    case True
    with assms(2) d have "truncated_integer (b # rest) 7 \<or> index_beyond_tables (b # rest) st"
      by (simp add: malformed_def)
    then have "decode_indexed (b # rest) st = Inl IndexError"
      by (auto simp: decode_indexed_def decode_integer_truncated dest: decode_indexed_beyond)
    with True show ?thesis by (simp add: decode_step_def b d)
  next
    case hi: False
    show ?thesis
    proof (cases "to_byte b AND 0x40 \<noteq> 0")
      case True
      with hi assms(2) d have
        "name_truncated (b # rest) True \<or> value_length_truncated (b # rest) True st"
        by (simp add: malformed_def)
      then have "decode_literal (b # rest) True st = Inl IndexError"
        by (rule decode_literal_malformed)
      with hi True show ?thesis
        by (simp add: decode_step_def b d decode_literal_index_def)
    next
      case lit: False
      show ?thesis
      proof (cases "to_byte b AND 0x20 \<noteq> 0")
        case True
        with hi lit assms(2) d show ?thesis by (simp add: malformed_def)
      next
        case False
        with hi lit assms(2) d have
          "name_truncated (b # rest) False \<or> value_length_truncated (b # rest) False st"
          by (simp add: malformed_def)
        then have "decode_literal (b # rest) False st = Inl IndexError"
          by (rule decode_literal_malformed)
        with hi lit False show ?thesis
          by (simp add: decode_step_def b d decode_literal_no_index_def)
      qed
    qed
  qed
qed

lemma decode_rounds_decode_loop:
  "decode_rounds k data i headers st = Inr (i1, headers1, st1) \<Longrightarrow>
   decode_loop data i headers st = decode_loop data i1 headers1 st1"
proof (induction k arbitrary: i headers st)
  case 0
  then show ?case by simp
next
  case (Suc k)
  show ?case
  proof (cases "i < length data")
    case True
    with Suc.prems obtain header consumed st2
      where s: "decode_step data i st = Inr (header, consumed, st2)"
        and r: "decode_rounds k data (i + consumed)
                  (case header of None \<Rightarrow> headers | Some h \<Rightarrow> headers @ [h]) st2
                = Inr (i1, headers1, st1)"
      by (auto split: sum.splits)
    from Suc.IH [OF r] True s show ?thesis
      by (simp add: decode_loop.simps [of data i headers st])
  next
    case False
    with Suc.prems show ?thesis by simp
  qed
qed

text \<open>
  C5, as stated, fails: the source defines no DecodingError, and two of the listed inputs
  are decoded without any exception. A literal whose value length (5) overruns the one
  byte that is left is returned cut short, since a Python slice past the end raises
  nothing; an indexed representation with index 0, met while the dynamic table is not
  empty, reads \<open>header_table[-1]\<close>, the oldest entry.
\<close>

theorem decode_malformed_counterexample:
  "Decoder_decode [0x00, 0x01, 0x61, 0x05, 0x62] (Decoder_init (\<lambda>b. Inr b))
     = Inr ([(text_lit ''a'', text_lit ''b'')], Decoder_init (\<lambda>b. Inr b))
   \<and> Decoder_decode [0x82, 0x80] (Decoder_init (\<lambda>b. Inr b))
     = Inr ([(text_lit '':method'', text_lit ''GET'')],
            \<lparr>d_header_table = [(bytes_lit '':method'', bytes_lit ''GET'')],
             d_reference_set = [], d_header_table_size = 4096,
             d_huffman_coder = (\<lambda>b. Inr b)\<rparr>)"
  by (simp add: dec_defs)

text \<open>
  C5, amended. Whenever the loop of \<open>Decoder.decode\<close> arrives, after any number of
  rounds, at a representation that is an indexed representation with an index above the
  combined size of the dynamic and static tables, or in which the end of the input cuts
  off an integer (the index, the name index, the length of a literal name, or the length
  of the value), \<open>Decoder.decode\<close> raises IndexError.
\<close>

theorem decode_raises_IndexError:
  assumes "decode_rounds k data 0 [] st0 = Inr (i, headers, st)" and "i < length data"
    and "malformed (drop i data) st"
  shows "Decoder_decode data st0 = Inl IndexError"
proof -
  have "decode_step data i st = Inl IndexError"
    using assms(2,3) by (rule decode_step_malformed)
  then have "decode_loop data i headers st = Inl IndexError"
    using assms(2) by (simp add: decode_loop.simps [of data i headers st])
  then have "decode_loop data 0 [] st0 = Inl IndexError"
    using decode_rounds_decode_loop [OF assms(1)] by simp
  then show ?thesis by (simp add: Decoder_decode_def)
qed

theorem decode_raises_IndexError_witness:
  "decode_rounds 1 [0x82, 0xFF, 0x80] 0 [] (Decoder_init (\<lambda>b. Inr b))
     = Inr (1, [(bytes_lit '':method'', bytes_lit ''GET'')],
            \<lparr>d_header_table = [(bytes_lit '':method'', bytes_lit ''GET'')],
             d_reference_set = [(bytes_lit '':method'', bytes_lit ''GET'')],
             d_header_table_size = 4096, d_huffman_coder = (\<lambda>b. Inr b)\<rparr>)
   \<and> (1::nat) < length [0x82, 0xFF, 0x80 :: byte]
   \<and> malformed (drop 1 [0x82, 0xFF, 0x80])
       \<lparr>d_header_table = [(bytes_lit '':method'', bytes_lit ''GET'')],
        d_reference_set = [(bytes_lit '':method'', bytes_lit ''GET'')],
        d_header_table_size = 4096, d_huffman_coder = (\<lambda>b. Inr b)\<rparr>
   \<and> Decoder_decode [0x82, 0xFF, 0x80] (Decoder_init (\<lambda>b. Inr b)) = Inl IndexError"
proof -
  let ?st0 = "Decoder_init (\<lambda>b. Inr b)"
  let ?st1 = "\<lparr>d_header_table = [(bytes_lit '':method'', bytes_lit ''GET'')],
        d_reference_set = [(bytes_lit '':method'', bytes_lit ''GET'')],
        d_header_table_size = 4096, d_huffman_coder = (\<lambda>b. Inr b)\<rparr>"
  let ?data = "[0x82, 0xFF, 0x80] :: bytes"
  have s: "decode_step ?data 0 ?st0
             = Inr (Some (bytes_lit '':method'', bytes_lit ''GET''), 1, ?st1)"
    by (simp add: dec_defs)
  have r: "decode_rounds 1 ?data 0 [] ?st0
             = Inr (1, [(bytes_lit '':method'', bytes_lit ''GET'')], ?st1)"
    using s by simp
  have m: "malformed (drop 1 ?data) ?st1"
    by (simp add: malformed_def truncated_integer_def to_byte_def)
  have l: "(1::nat) < length ?data" by simp
  from decode_raises_IndexError [OF r l m] r m show ?thesis by simp
qed

subsection \<open>The encoder on the request of the first scenario\<close>

text \<open>The first \<open>encode\<close> of the request on a fresh encoder, for any Huffman coder.\<close>

lemma encode_request_first:
  "Encoder_encode request_headers False (Encoder_init c) =
     Inr ([0x82, 0x87, 0x86, 0x04, 0x0F] @ bytes_lit ''www.example.com'',
          \<lparr>e_header_table =
             [(bytes_lit '':path'', bytes_lit ''/''),
              (bytes_lit '':scheme'', bytes_lit ''http''),
              (bytes_lit '':method'', bytes_lit ''GET'')],
           e_header_table_size = 4096, e_huffman_coder = c,
           e_reference_set =
             [((bytes_lit '':method'', bytes_lit ''GET''), Shared EMITTED),
              ((bytes_lit '':scheme'', bytes_lit ''http''), Shared EMITTED),
              ((bytes_lit '':path'', bytes_lit ''/''), Shared EMITTED)]\<rparr>)"
  by (simp add: request_headers_def enc_defs)

text \<open>The second \<open>encode\<close> of the same request, on the encoder the first one left.\<close>

lemma encode_request_second:
  "Encoder_encode request_headers False
     \<lparr>e_header_table =
        [(bytes_lit '':path'', bytes_lit ''/''),
         (bytes_lit '':scheme'', bytes_lit ''http''),
         (bytes_lit '':method'', bytes_lit ''GET'')],
      e_header_table_size = 4096, e_huffman_coder = c,
      e_reference_set =
        [((bytes_lit '':method'', bytes_lit ''GET''), Shared EMITTED),
         ((bytes_lit '':scheme'', bytes_lit ''http''), Shared EMITTED),
         ((bytes_lit '':path'', bytes_lit ''/''), Shared EMITTED)]\<rparr> =
     Inr ([0x04, 0x0F] @ bytes_lit ''www.example.com'',
          \<lparr>e_header_table =
             [(bytes_lit '':path'', bytes_lit ''/''),
              (bytes_lit '':scheme'', bytes_lit ''http''),
              (bytes_lit '':method'', bytes_lit ''GET'')],
           e_header_table_size = 4096, e_huffman_coder = c,
           e_reference_set =
             [((bytes_lit '':method'', bytes_lit ''GET''), Shared IMPLICITLY_EMITTED),
              ((bytes_lit '':scheme'', bytes_lit ''http''), Shared IMPLICITLY_EMITTED),
              ((bytes_lit '':path'', bytes_lit ''/''), Shared IMPLICITLY_EMITTED)]\<rparr>)"
  by (simp add: request_headers_def enc_defs)

text \<open>
  C3, as stated, fails. The block starts with 0x82, 0x87, 0x86 and not with 0x82, 0x86,
  0x84, and the byte that starts the authority header is 0x04, in which the bit 0x40 of a
  literal with incremental indexing is clear.
\<close>

theorem encode_request_counterexample:
  "block_of (Encoder_encode request_headers False (Encoder_init (\<lambda>b. b)))
     = Inr ([0x82, 0x87, 0x86, 0x04, 0x0F] @ bytes_lit ''www.example.com'')
   \<and> take 3 ([0x82, 0x87, 0x86, 0x04, 0x0F] @ bytes_lit ''www.example.com'')
       \<noteq> [0x82, 0x86, 0x84]
   \<and> (0x04 :: byte) AND 0x40 = 0"
  by (simp add: encode_request_first block_of_def)

text \<open>
  C3, amended. Encoding the request on a fresh encoder with \<open>huffman = False\<close> gives
  the indexed bytes 0x82, 0x87, 0x86 (each static index is counted after the entries that
  the headers before it added to the dynamic table), followed by 0x04, 0x0F and the fifteen
  bytes of the authority value: a literal without indexing whose name index 4 is the
  \<open>:authority\<close> entry of the static table behind three dynamic entries. The three
  indexed headers are then in the dynamic table and in the reference set, the authority
  header is in neither.
\<close>

theorem encode_request:
  "Encoder_encode request_headers False (Encoder_init c) =
     Inr ([0x82, 0x87, 0x86, 0x04, 0x0F] @ bytes_lit ''www.example.com'',
          \<lparr>e_header_table =
             [(bytes_lit '':path'', bytes_lit ''/''),
              (bytes_lit '':scheme'', bytes_lit ''http''),
              (bytes_lit '':method'', bytes_lit ''GET'')],
           e_header_table_size = 4096, e_huffman_coder = c,
           e_reference_set =
             [((bytes_lit '':method'', bytes_lit ''GET''), Shared EMITTED),
              ((bytes_lit '':scheme'', bytes_lit ''http''), Shared EMITTED),
              ((bytes_lit '':path'', bytes_lit ''/''), Shared EMITTED)]\<rparr>)
   \<and> decode_name ([0x04, 0x0F] @ bytes_lit ''www.example.com'') False
         \<lparr>d_header_table =
            [(bytes_lit '':path'', bytes_lit ''/''),
             (bytes_lit '':scheme'', bytes_lit ''http''),
             (bytes_lit '':method'', bytes_lit ''GET'')],
          d_reference_set = rs, d_header_table_size = 4096, d_huffman_coder = d\<rparr>
       = Inr (bytes_lit '':authority'', 1, [0x0F] @ bytes_lit ''www.example.com'')"
  by (simp add: encode_request_first) (simp add: dec_defs)

text \<open>
  C4, as stated, fails: the second \<open>encode\<close> of the request returns seventeen bytes,
  the literal for the authority header again.
\<close>

theorem encode_request_again_counterexample:
  "and_then (Encoder_encode request_headers False (Encoder_init (\<lambda>b. b)))
     (\<lambda>(block, st). block_of (Encoder_encode request_headers False st))
     = Inr ([0x04, 0x0F] @ bytes_lit ''www.example.com'')
   \<and> [0x04, 0x0F] @ bytes_lit ''www.example.com'' \<noteq> []"
  by (simp add: encode_request_first encode_request_second block_of_def)

text \<open>
  C4, amended. Encoding the request a second time into the same encoder returns the
  bytes 0x04, 0x0F and the authority value and nothing else: the three headers that are
  in the reference set get no representation and are tagged as implicitly emitted, and the
  authority header, which the first \<open>encode\<close> put in no table, is sent again as a
  literal without indexing. The dynamic table is as before.
\<close>

theorem encode_request_again:
  "and_then (Encoder_encode request_headers False (Encoder_init c))
     (\<lambda>(block, st). Encoder_encode request_headers False st)
     = Inr ([0x04, 0x0F] @ bytes_lit ''www.example.com'',
            \<lparr>e_header_table =
               [(bytes_lit '':path'', bytes_lit ''/''),
                (bytes_lit '':scheme'', bytes_lit ''http''),
                (bytes_lit '':method'', bytes_lit ''GET'')],
             e_header_table_size = 4096, e_huffman_coder = c,
             e_reference_set =
               [((bytes_lit '':method'', bytes_lit ''GET''), Shared IMPLICITLY_EMITTED),
                ((bytes_lit '':scheme'', bytes_lit ''http''), Shared IMPLICITLY_EMITTED),
                ((bytes_lit '':path'', bytes_lit ''/''), Shared IMPLICITLY_EMITTED)]\<rparr>)"
  by (simp add: encode_request_first encode_request_second)


subsection \<open>The index space of the decoder\<close>

text \<open>
  An indexed representation whose wire index is between 1 and the length of the dynamic
  table reads the dynamic table at that position, counted from the most recent entry.
\<close>

lemma decode_indexed_dynamic:
  assumes "decode_integer data 7 = Inr (w, consumed)"
    and "1 \<le> w" and "w \<le> int (length (d_header_table st))"
  shows "decode_indexed data st =
     (let header = d_header_table st ! nat (w - 1) in
      if header \<in> set (d_reference_set st)
      then Inr (None, consumed,
                st\<lparr>d_reference_set := set_discard (d_reference_set st) header\<rparr>)
      else Inr (Some header, consumed,
                st\<lparr>d_reference_set := set_add (d_reference_set st) header\<rparr>))"
  using assms by (simp add: decode_indexed_def py_index_def Let_def)

text \<open>
  With a dynamic table of length \<open>D\<close>, a wire index from \<open>D + 2\<close> to \<open>D + 61\<close> reads
  the static table at entry number \<open>w - D\<close>, which is then added to the dynamic table.
\<close>

lemma decode_indexed_static:
  assumes "decode_integer data 7 = Inr (w, consumed)"
    and "int (length (d_header_table st)) + 2 \<le> w"
    and "w \<le> int (length (d_header_table st)) + 61"
  shows "decode_indexed data st =
     (let header = static_table ! (nat (w - int (length (d_header_table st))) - 1) in
      and_then (Decoder_add_to_header_table header st) (\<lambda>st1.
        if header \<in> set (d_reference_set st1)
        then Inr (None, consumed,
                  st1\<lparr>d_reference_set := set_discard (d_reference_set st1) header\<rparr>)
        else Inr (Some header, consumed,
                  st1\<lparr>d_reference_set := set_add (d_reference_set st1) header\<rparr>)))"
proof -
  let ?D = "int (length (d_header_table st))"
  have n: "nat (w - 1 - ?D) = nat (w - ?D) - 1" using assms(2) by simp
  have "py_index static_table (w - 1 - ?D) = Inr (static_table ! (nat (w - ?D) - 1))"
    using assms(2,3) by (simp add: py_index_def length_static_table n)
  then show ?thesis
    using assms
    by (cases "Decoder_add_to_header_table (static_table ! (nat (w - ?D) - 1)) st")
      (simp_all add: decode_indexed_def Let_def)
qed

text \<open>
  C6 fails at the wire index \<open>D + 1\<close>, the first static entry: \<open>_decode_indexed\<close>
  compares with \<open>index > len(self.header_table)\<close>, so the index that is equal to the
  length is looked up in the dynamic table, one position past its end, and IndexError is
  raised.
\<close>

theorem decode_indexed_first_static_entry:
  assumes "decode_integer data 7 = Inr (int (length (d_header_table st)) + 1, consumed)"
  shows "decode_indexed data st = Inl IndexError"
  using assms by (simp add: decode_indexed_def py_index_def)

theorem decode_indexed_first_static_entry_witness:
  "decode_integer [0x81] 7
     = Inr (int (length (d_header_table (Decoder_init (\<lambda>b. Inr b)))) + 1, 1)
   \<and> decode_indexed [0x81] (Decoder_init (\<lambda>b. Inr b)) = Inl IndexError
   \<and> Decoder_decode [0x81] (Decoder_init (\<lambda>b. Inr b)) = Inl IndexError"
proof -
  have d: "decode_integer [0x81] 7
     = Inr (int (length (d_header_table (Decoder_init (\<lambda>b. Inr b)))) + 1, 1)"
    by (simp add: dec_defs)
  have "Decoder_decode [0x81] (Decoder_init (\<lambda>b. Inr b)) = Inl IndexError"
    using decode_indexed_first_static_entry [OF d]
    by (simp add: Decoder_decode_def decode_loop.simps decode_step_def to_byte_def)
  with d decode_indexed_first_static_entry [OF d] show ?thesis by simp
qed

subsection \<open>Round trip\<close>

text \<open>
  C1 fails on the list that holds the first static entry alone. For either value of the
  \<open>huffman\<close> flag and any Huffman coder, a fresh encoder encodes
  \<open>[(b':authority', b'')]\<close> as the one byte 0x81, and a fresh decoder raises IndexError
  on that block.
\<close>

theorem roundtrip_first_static_entry:
  "block_of (Encoder_encode [(Bytes (bytes_lit '':authority''), Bytes [])] huffman
               (Encoder_init c)) = Inr [0x81]
   \<and> and_then (Encoder_encode [(Bytes (bytes_lit '':authority''), Bytes [])] huffman
                 (Encoder_init c))
        (\<lambda>(block, st). Decoder_decode block (Decoder_init d)) = Inl IndexError"
  by (cases huffman) (simp_all add: enc_defs dec_defs block_of_def)

subsection \<open>The context update\<close>

text \<open>
  At the start of a block the byte 0x30 empties the reference set, consumes one byte and
  changes nothing else.
\<close>

lemma decode_step_0x30_first:
  assumes "data \<noteq> []" and "data ! 0 = 0x30"
  shows "decode_step data 0 st = Inr (None, 1, st\<lparr>d_reference_set := []\<rparr>)"
proof -
  from assms obtain rest where "data = 0x30 # rest" by (cases data) auto
  then show ?thesis
    by (simp add: decode_step_def update_encoding_context_def to_byte_def)
qed

text \<open>
  C8 fails at any later position: \<open>decode\<close> hands the whole block to
  \<open>_update_encoding_context\<close>, which looks at \<open>data[0]\<close>. In the block 0x82, 0x30 the
  byte 0x30 at position 1 is therefore read as the size update that the first byte, 0x82,
  would be: the maximum table size becomes 2 and the entry that 0x82 added is evicted.
\<close>

theorem context_update_reads_first_byte:
  "decode_step [0x82, 0x30] 1
     \<lparr>d_header_table = [(bytes_lit '':method'', bytes_lit ''GET'')],
      d_reference_set = [(bytes_lit '':method'', bytes_lit ''GET'')],
      d_header_table_size = 4096, d_huffman_coder = d\<rparr>
     = Inr (None, 1,
            \<lparr>d_header_table = [], d_reference_set = [], d_header_table_size = 2,
             d_huffman_coder = d\<rparr>)
   \<and> Decoder_decode [0x82] (Decoder_init d)
     = Inr ([(text_lit '':method'', text_lit ''GET'')],
            \<lparr>d_header_table = [(bytes_lit '':method'', bytes_lit ''GET'')],
             d_reference_set = [(bytes_lit '':method'', bytes_lit ''GET'')],
             d_header_table_size = 4096, d_huffman_coder = d\<rparr>)
   \<and> Decoder_decode [0x82, 0x30] (Decoder_init d)
     = Inr ([(text_lit '':method'', text_lit ''GET'')],
            \<lparr>d_header_table = [], d_reference_set = [], d_header_table_size = 2,
             d_huffman_coder = d\<rparr>)"
  by (simp add: dec_defs)

subsection \<open>The reference set and the tables\<close>

text \<open>
  C2 fails when a new entry is larger than the maximum table size. Both
  \<open>_add_to_header_table\<close> functions evict until the size fits, which removes the new
  entry itself, and the caller then adds the entry to the reference set. A fresh decoder
  that decodes a size update to 0 and a literal with incremental indexing, and an encoder
  whose \<open>header_table_size\<close> is set to 0 and that encodes one new header, both end with
  a reference to a pair that is in no table.
\<close>

theorem reference_set_outside_tables:
  "Decoder_refs_in_tables (Decoder_init d)
   \<and> Decoder_decode [0x20, 0x40, 0x01, 0x61, 0x01, 0x62] (Decoder_init d)
     = Inr ([(text_lit ''a'', text_lit ''b'')],
            \<lparr>d_header_table = [], d_reference_set = [(bytes_lit ''a'', bytes_lit ''b'')],
             d_header_table_size = 0, d_huffman_coder = d\<rparr>)
   \<and> \<not> Decoder_refs_in_tables
         \<lparr>d_header_table = [], d_reference_set = [(bytes_lit ''a'', bytes_lit ''b'')],
          d_header_table_size = 0, d_huffman_coder = d\<rparr>
   \<and> Encoder_refs_in_tables (Encoder_init c)
   \<and> and_then (Encoder_set_header_table_size 0 (Encoder_init c))
        (\<lambda>st. Encoder_encode [(Bytes (bytes_lit ''a''), Bytes (bytes_lit ''b''))] False st)
     = Inr ([0x40, 0x01, 0x61, 0x01, 0x62],
            \<lparr>e_header_table = [], e_header_table_size = 0, e_huffman_coder = c,
             e_reference_set = [((bytes_lit ''a'', bytes_lit ''b''), Shared EMITTED)]\<rparr>)
   \<and> \<not> Encoder_refs_in_tables
         \<lparr>e_header_table = [], e_header_table_size = 0, e_huffman_coder = c,
          e_reference_set = [((bytes_lit ''a'', bytes_lit ''b''), Shared EMITTED)]\<rparr>"
  by (simp add: Decoder_refs_in_tables_def Encoder_refs_in_tables_def enc_defs dec_defs)

subsection \<open>UTF-8\<close>

text \<open>
  The encoder and the strict decoder are inverse to each other: a text of scalar values
  is encoded, and decoding reads it back; and whatever the decoder reads from a byte
  string encodes to that byte string. So a text has one UTF-8 encoding. The facts about
  single bytes are checked on all their values.
\<close>

lemma ascii_all:
  "list_all (\<lambda>k. (of_nat k :: byte) < 0x80 \<and> unat (of_nat k :: byte) = k) [0..<128]"
  by code_simp

lemma cont_all:
  "list_all (\<lambda>k. is_continuation (of_nat (128 + k)) \<and> payload (of_nat (128 + k)) = k) [0..<64]"
  by code_simp

lemma lead2_all:
  "list_all (\<lambda>k. \<not> (of_nat (192 + k) :: byte) < 0x80
      \<and> (of_nat (192 + k) :: byte) AND 0xE0 = 0xC0
      \<and> unat ((of_nat (192 + k) :: byte) AND 0x1F) = k) [0..<32]"
  by code_simp

lemma lead3_all:
  "list_all (\<lambda>k. \<not> (of_nat (224 + k) :: byte) < 0x80
      \<and> (of_nat (224 + k) :: byte) AND 0xE0 \<noteq> 0xC0
      \<and> (of_nat (224 + k) :: byte) AND 0xF0 = 0xE0
      \<and> unat ((of_nat (224 + k) :: byte) AND 0x0F) = k) [0..<16]"
  by code_simp

lemma lead4_all:
  "list_all (\<lambda>k. \<not> (of_nat (240 + k) :: byte) < 0x80
      \<and> (of_nat (240 + k) :: byte) AND 0xE0 \<noteq> 0xC0
      \<and> (of_nat (240 + k) :: byte) AND 0xF0 \<noteq> 0xE0
      \<and> (of_nat (240 + k) :: byte) AND 0xF8 = 0xF0
      \<and> unat ((of_nat (240 + k) :: byte) AND 0x07) = k) [0..<8]"
  by code_simp

lemma ascii_byte:
  assumes "k < 128"
  shows "(of_nat k :: byte) < 0x80" and "unat (of_nat k :: byte) = k"
proof -
  have "k \<in> set [0..<128]" using assms by simp
  with ascii_all show "(of_nat k :: byte) < 0x80" and "unat (of_nat k :: byte) = k"
    unfolding list_all_iff by blast+
qed

lemma cont_byte:
  assumes "k < 64"
  shows "is_continuation (of_nat (128 + k))" and "payload (of_nat (128 + k)) = k"
proof -
  have "k \<in> set [0..<64]" using assms by simp
  with cont_all show "is_continuation (of_nat (128 + k))" and "payload (of_nat (128 + k)) = k"
    unfolding list_all_iff by blast+
qed

lemma lead2_byte:
  assumes "k < 32"
  shows "\<not> (of_nat (192 + k) :: byte) < 0x80"
    and "(of_nat (192 + k) :: byte) AND 0xE0 = 0xC0"
    and "unat ((of_nat (192 + k) :: byte) AND 0x1F) = k"
proof -
  have "k \<in> set [0..<32]" using assms by simp
  with lead2_all show "\<not> (of_nat (192 + k) :: byte) < 0x80"
    and "(of_nat (192 + k) :: byte) AND 0xE0 = 0xC0"
    and "unat ((of_nat (192 + k) :: byte) AND 0x1F) = k"
    unfolding list_all_iff by blast+
qed

lemma lead3_byte:
  assumes "k < 16"
  shows "\<not> (of_nat (224 + k) :: byte) < 0x80"
    and "(of_nat (224 + k) :: byte) AND 0xE0 \<noteq> 0xC0"
    and "(of_nat (224 + k) :: byte) AND 0xF0 = 0xE0"
    and "unat ((of_nat (224 + k) :: byte) AND 0x0F) = k"
proof -
  have "k \<in> set [0..<16]" using assms by simp
  with lead3_all show "\<not> (of_nat (224 + k) :: byte) < 0x80"
    and "(of_nat (224 + k) :: byte) AND 0xE0 \<noteq> 0xC0"
    and "(of_nat (224 + k) :: byte) AND 0xF0 = 0xE0"
    and "unat ((of_nat (224 + k) :: byte) AND 0x0F) = k"
    unfolding list_all_iff by blast+
qed

lemma lead4_byte:
  assumes "k < 8"
  shows "\<not> (of_nat (240 + k) :: byte) < 0x80"
    and "(of_nat (240 + k) :: byte) AND 0xE0 \<noteq> 0xC0"
    and "(of_nat (240 + k) :: byte) AND 0xF0 \<noteq> 0xE0"
    and "(of_nat (240 + k) :: byte) AND 0xF8 = 0xF0"
    and "unat ((of_nat (240 + k) :: byte) AND 0x07) = k"
proof -
  have "k \<in> set [0..<8]" using assms by simp
  with lead4_all show "\<not> (of_nat (240 + k) :: byte) < 0x80"
    and "(of_nat (240 + k) :: byte) AND 0xE0 \<noteq> 0xC0"
    and "(of_nat (240 + k) :: byte) AND 0xF0 \<noteq> 0xE0"
    and "(of_nat (240 + k) :: byte) AND 0xF8 = 0xF0"
    and "unat ((of_nat (240 + k) :: byte) AND 0x07) = k"
    unfolding list_all_iff by blast+
qed

lemma split3: "c div 4096 * 4096 + (c div 64) mod 64 * 64 + c mod 64 = (c::nat)"
proof -
  have q: "c div 4096 = c div 64 div 64" by (simp add: div_mult2_eq)
  have g: "a * 4096 + b * 64 + r = (a * 64 + b) * 64 + r" for a b r :: nat by simp
  show ?thesis unfolding q g by (simp only: div_mult_mod_eq)
qed

lemma split4:
  "c div 262144 * 262144 + (c div 4096) mod 64 * 4096 + (c div 64) mod 64 * 64 + c mod 64
     = (c::nat)"
proof -
  have q: "c div 262144 = c div 64 div 64 div 64" "c div 4096 = c div 64 div 64"
    by (simp_all add: div_mult2_eq)
  have g: "a * 262144 + b * 4096 + d * 64 + r = ((a * 64 + b) * 64 + d) * 64 + r"
    for a b d r :: nat by simp
  show ?thesis unfolding q g by (simp only: div_mult_mod_eq)
qed

lemma utf8_point_roundtrip:
  assumes "scalar_value c"
  shows "\<exists>bs. utf8_encode_point c = Inr bs
           \<and> utf8_decode (bs @ rest) = prepend c (utf8_decode rest)"
proof -
  consider "c < 0x80" | "0x80 \<le> c" "c < 0x800"
    | "0x800 \<le> c" "c < 0x10000" "c < 0xD800 \<or> 0xE000 \<le> c"
    | "0x10000 \<le> c" "c < 0x110000"
    using assms unfolding scalar_value_def by linarith
  then show ?thesis
  proof cases
    case 1
    define b0 :: byte where "b0 = of_nat c"
    have enc: "utf8_encode_point c = Inr [b0]"
      using 1 by (simp add: utf8_encode_point_def b0_def)
    have f: "b0 < 0x80" "unat b0 = c"
      unfolding b0_def using 1 by (simp_all add: ascii_byte)
    have "utf8_decode ([b0] @ rest) = prepend c (utf8_decode rest)"
      using f by simp
    with enc show ?thesis by blast
  next
    case 2
    define b0 :: byte where "b0 = of_nat (192 + c div 64)"
    define b1 :: byte where "b1 = of_nat (128 + c mod 64)"
    have k: "c div 64 < 32" "c mod 64 < 64" using 2 by simp_all
    have c: "c div 64 * 64 + c mod 64 = c" by simp
    have enc: "utf8_encode_point c = Inr [b0, b1]"
      using 2 by (simp add: utf8_encode_point_def b0_def b1_def)
    have f: "\<not> b0 < 0x80" "b0 AND 0xE0 = 0xC0" "unat (b0 AND 0x1F) = c div 64"
      "is_continuation b1" "payload b1 = c mod 64"
      unfolding b0_def b1_def
      by (rule lead2_byte [OF k(1)] cont_byte [OF k(2)])+
    have "utf8_decode ([b0, b1] @ rest) = prepend c (utf8_decode rest)"
      using f c 2 by simp
    with enc show ?thesis by blast
  next
    case 3
    define b0 :: byte where "b0 = of_nat (224 + c div 4096)"
    define b1 :: byte where "b1 = of_nat (128 + (c div 64) mod 64)"
    define b2 :: byte where "b2 = of_nat (128 + c mod 64)"
    have k: "c div 4096 < 16" "(c div 64) mod 64 < 64" "c mod 64 < 64" using 3 by simp_all
    have c: "c div 4096 * 4096 + (c div 64) mod 64 * 64 + c mod 64 = c"
      by (rule split3)
    have enc: "utf8_encode_point c = Inr [b0, b1, b2]"
      using 3 by (auto simp: utf8_encode_point_def b0_def b1_def b2_def)
    have f: "\<not> b0 < 0x80" "b0 AND 0xE0 \<noteq> 0xC0" "b0 AND 0xF0 = 0xE0"
      "unat (b0 AND 0x0F) = c div 4096"
      "is_continuation b1" "payload b1 = (c div 64) mod 64"
      "is_continuation b2" "payload b2 = c mod 64"
      unfolding b0_def b1_def b2_def
      by (rule lead3_byte [OF k(1)] cont_byte [OF k(2)] cont_byte [OF k(3)])+
    have "utf8_decode ([b0, b1, b2] @ rest) = prepend c (utf8_decode rest)"
      using f c 3 by auto
    with enc show ?thesis by blast
  next
    case 4
    define b0 :: byte where "b0 = of_nat (240 + c div 262144)"
    define b1 :: byte where "b1 = of_nat (128 + (c div 4096) mod 64)"
    define b2 :: byte where "b2 = of_nat (128 + (c div 64) mod 64)"
    define b3 :: byte where "b3 = of_nat (128 + c mod 64)"
    have k: "c div 262144 < 8" "(c div 4096) mod 64 < 64" "(c div 64) mod 64 < 64"
      "c mod 64 < 64" using 4 by simp_all
    have c: "c div 262144 * 262144 + (c div 4096) mod 64 * 4096 + (c div 64) mod 64 * 64
               + c mod 64 = c"
      by (rule split4)
    have enc: "utf8_encode_point c = Inr [b0, b1, b2, b3]"
      using 4 by (simp add: utf8_encode_point_def b0_def b1_def b2_def b3_def)
    have f: "\<not> b0 < 0x80" "b0 AND 0xE0 \<noteq> 0xC0" "b0 AND 0xF0 \<noteq> 0xE0"
      "b0 AND 0xF8 = 0xF0" "unat (b0 AND 0x07) = c div 262144"
      "is_continuation b1" "payload b1 = (c div 4096) mod 64"
      "is_continuation b2" "payload b2 = (c div 64) mod 64"
      "is_continuation b3" "payload b3 = c mod 64"
      unfolding b0_def b1_def b2_def b3_def
      by (rule lead4_byte [OF k(1)] cont_byte [OF k(2)] cont_byte [OF k(3)]
          cont_byte [OF k(4)])+
    have "utf8_decode ([b0, b1, b2, b3] @ rest) = prepend c (utf8_decode rest)"
      using f c 4 by simp
    with enc show ?thesis by blast
  qed
qed

lemma utf8_roundtrip:
  "list_all scalar_value s \<Longrightarrow> \<exists>bs. utf8_encode s = Inr bs \<and> utf8_decode bs = Inr s"
proof (induction s)
  case Nil
  show ?case by simp
next
  case (Cons c s)
  then obtain rest where r: "utf8_encode s = Inr rest" "utf8_decode rest = Inr s" by auto
  from Cons.prems have "scalar_value c" by simp
  from utf8_point_roundtrip [OF this, of rest] obtain bs
    where b: "utf8_encode_point c = Inr bs"
      "utf8_decode (bs @ rest) = prepend c (utf8_decode rest)" by blast
  with r show ?case by simp
qed

lemma utf8_encode_point_fails:
  "\<not> scalar_value c \<Longrightarrow> utf8_encode_point c = Inl UnicodeEncodeError"
  by (auto simp: scalar_value_def utf8_encode_point_def)

lemma utf8_encode_fails:
  "\<not> list_all scalar_value s \<Longrightarrow> utf8_encode s = Inl UnicodeEncodeError"
proof (induction s)
  case Nil
  then show ?case by simp
next
  case (Cons c s)
  show ?case
  proof (cases "scalar_value c")
    case True
    with Cons have "utf8_encode s = Inl UnicodeEncodeError" by simp
    moreover obtain bs where "utf8_encode_point c = Inr bs"
      using utf8_point_roundtrip [OF True] by blast
    ultimately show ?thesis by simp
  next
    case False
    then show ?thesis by (simp add: utf8_encode_point_fails)
  qed
qed


lemma byte_all:
  "list_all (\<lambda>k.
      ((of_nat k :: byte) < 0x80 \<longrightarrow> unat (of_nat k :: byte) < 128)
    \<and> ((of_nat k :: byte) AND 0xE0 = 0xC0 \<longrightarrow>
         unat ((of_nat k :: byte) AND 0x1F) < 32
         \<and> of_nat (192 + unat ((of_nat k :: byte) AND 0x1F)) = (of_nat k :: byte))
    \<and> ((of_nat k :: byte) AND 0xF0 = 0xE0 \<longrightarrow>
         unat ((of_nat k :: byte) AND 0x0F) < 16
         \<and> of_nat (224 + unat ((of_nat k :: byte) AND 0x0F)) = (of_nat k :: byte))
    \<and> ((of_nat k :: byte) AND 0xF8 = 0xF0 \<longrightarrow>
         unat ((of_nat k :: byte) AND 0x07) < 8
         \<and> of_nat (240 + unat ((of_nat k :: byte) AND 0x07)) = (of_nat k :: byte))
    \<and> (is_continuation (of_nat k) \<longrightarrow>
         payload (of_nat k) < 64 \<and> of_nat (128 + payload (of_nat k)) = (of_nat k :: byte)))
    [0..<256]"
  by code_simp

lemma byte_facts:
  fixes b :: byte
  shows "b < 0x80 \<Longrightarrow> unat b < 128"
    and "b AND 0xE0 = 0xC0 \<Longrightarrow> unat (b AND 0x1F) < 32 \<and> of_nat (192 + unat (b AND 0x1F)) = b"
    and "b AND 0xF0 = 0xE0 \<Longrightarrow> unat (b AND 0x0F) < 16 \<and> of_nat (224 + unat (b AND 0x0F)) = b"
    and "b AND 0xF8 = 0xF0 \<Longrightarrow> unat (b AND 0x07) < 8 \<and> of_nat (240 + unat (b AND 0x07)) = b"
    and "is_continuation b \<Longrightarrow> payload b < 64 \<and> of_nat (128 + payload b) = b"
proof -
  have ob: "(of_nat (unat b) :: byte) = b" by simp
  have "unat b < 256" using unsigned_less [of b, where ?'a = nat] by simp
  then have "unat b \<in> set [0..<256]" by simp
  with byte_all have
    "((of_nat (unat b) :: byte) < 0x80 \<longrightarrow> unat (of_nat (unat b) :: byte) < 128)
    \<and> ((of_nat (unat b) :: byte) AND 0xE0 = 0xC0 \<longrightarrow>
         unat ((of_nat (unat b) :: byte) AND 0x1F) < 32
         \<and> of_nat (192 + unat ((of_nat (unat b) :: byte) AND 0x1F)) = (of_nat (unat b) :: byte))
    \<and> ((of_nat (unat b) :: byte) AND 0xF0 = 0xE0 \<longrightarrow>
         unat ((of_nat (unat b) :: byte) AND 0x0F) < 16
         \<and> of_nat (224 + unat ((of_nat (unat b) :: byte) AND 0x0F)) = (of_nat (unat b) :: byte))
    \<and> ((of_nat (unat b) :: byte) AND 0xF8 = 0xF0 \<longrightarrow>
         unat ((of_nat (unat b) :: byte) AND 0x07) < 8
         \<and> of_nat (240 + unat ((of_nat (unat b) :: byte) AND 0x07)) = (of_nat (unat b) :: byte))
    \<and> (is_continuation (of_nat (unat b)) \<longrightarrow>
         payload (of_nat (unat b)) < 64
         \<and> of_nat (128 + payload (of_nat (unat b))) = (of_nat (unat b) :: byte))"
    unfolding list_all_iff by blast
  then have all:
    "(b < 0x80 \<longrightarrow> unat b < 128)
    \<and> (b AND 0xE0 = 0xC0 \<longrightarrow>
         unat (b AND 0x1F) < 32 \<and> of_nat (192 + unat (b AND 0x1F)) = b)
    \<and> (b AND 0xF0 = 0xE0 \<longrightarrow>
         unat (b AND 0x0F) < 16 \<and> of_nat (224 + unat (b AND 0x0F)) = b)
    \<and> (b AND 0xF8 = 0xF0 \<longrightarrow>
         unat (b AND 0x07) < 8 \<and> of_nat (240 + unat (b AND 0x07)) = b)
    \<and> (is_continuation b \<longrightarrow> payload b < 64 \<and> of_nat (128 + payload b) = b)"
    unfolding ob .
  from all show "b < 0x80 \<Longrightarrow> unat b < 128" by blast
  from all show "b AND 0xE0 = 0xC0 \<Longrightarrow>
      unat (b AND 0x1F) < 32 \<and> of_nat (192 + unat (b AND 0x1F)) = b" by blast
  from all show "b AND 0xF0 = 0xE0 \<Longrightarrow>
      unat (b AND 0x0F) < 16 \<and> of_nat (224 + unat (b AND 0x0F)) = b" by blast
  from all show "b AND 0xF8 = 0xF0 \<Longrightarrow>
      unat (b AND 0x07) < 8 \<and> of_nat (240 + unat (b AND 0x07)) = b" by blast
  from all show "is_continuation b \<Longrightarrow> payload b < 64 \<and> of_nat (128 + payload b) = b"
    by blast
qed

lemma join2:
  assumes "p < 64"
  shows "(k * 64 + p) div 64 = (k::nat)" and "(k * 64 + p) mod 64 = p"
  using assms by simp_all

lemma join3:
  assumes "p < 64" and "q < 64"
  shows "(k * 4096 + p * 64 + q) div 4096 = (k::nat)"
    and "(k * 4096 + p * 64 + q) div 64 mod 64 = p"
    and "(k * 4096 + p * 64 + q) mod 64 = q"
proof -
  have e: "k * 4096 + p * 64 + q = (k * 64 + p) * 64 + q" by simp
  have d: "(k * 4096 + p * 64 + q) div 64 = k * 64 + p"
    by (subst e) (rule join2(1) [OF assms(2)])
  show "(k * 4096 + p * 64 + q) div 64 mod 64 = p"
    by (subst d) (rule join2(2) [OF assms(1)])
  show "(k * 4096 + p * 64 + q) mod 64 = q"
    by (subst e) (rule join2(2) [OF assms(2)])
  have "(k * 4096 + p * 64 + q) div 4096 = (k * 4096 + p * 64 + q) div 64 div 64"
    by (simp add: div_mult2_eq)
  also have "\<dots> = k" by (subst d) (rule join2(1) [OF assms(1)])
  finally show "(k * 4096 + p * 64 + q) div 4096 = k" .
qed

lemma join4:
  assumes "p < 64" and "q < 64" and "r < 64"
  shows "(k * 262144 + p * 4096 + q * 64 + r) div 262144 = (k::nat)"
    and "(k * 262144 + p * 4096 + q * 64 + r) div 4096 mod 64 = p"
    and "(k * 262144 + p * 4096 + q * 64 + r) div 64 mod 64 = q"
    and "(k * 262144 + p * 4096 + q * 64 + r) mod 64 = r"
proof -
  let ?c = "k * 262144 + p * 4096 + q * 64 + r"
  have e: "?c = ((k * 64 + p) * 64 + q) * 64 + r" by simp
  have d1: "?c div 64 = (k * 64 + p) * 64 + q"
    by (subst e) (rule join2(1) [OF assms(3)])
  have d2: "?c div 4096 = k * 64 + p"
  proof -
    have "?c div 4096 = ?c div 64 div 64" by (simp add: div_mult2_eq)
    also have "\<dots> = k * 64 + p" by (subst d1) (rule join2(1) [OF assms(2)])
    finally show ?thesis .
  qed
  show "?c mod 64 = r" by (subst e) (rule join2(2) [OF assms(3)])
  show "?c div 64 mod 64 = q" by (subst d1) (rule join2(2) [OF assms(2)])
  show "?c div 4096 mod 64 = p" by (subst d2) (rule join2(2) [OF assms(1)])
  have "?c div 262144 = ?c div 4096 div 64" by (simp add: div_mult2_eq)
  also have "\<dots> = k" by (subst d2) (rule join2(1) [OF assms(1)])
  finally show "?c div 262144 = k" .
qed

lemma prepend_Inr: "prepend c r = Inr s \<Longrightarrow> \<exists>s1. r = Inr s1 \<and> s = c # s1"
  by (cases r) auto

lemma utf8_decode_encode:
  "utf8_decode r = Inr s \<Longrightarrow> utf8_encode s = Inr r"
proof (induction r arbitrary: s rule: length_induct)
  case (1 r)
  show ?case
  proof (cases r)
    case Nil
    with "1.prems" show ?thesis by simp
  next
    case (Cons b0 rest)
    note r = Cons
    consider (one) "b0 < 0x80"
      | (two) "\<not> b0 < 0x80" "b0 AND 0xE0 = 0xC0"
      | (three) "\<not> b0 < 0x80" "b0 AND 0xE0 \<noteq> 0xC0" "b0 AND 0xF0 = 0xE0"
      | (four) "\<not> b0 < 0x80" "b0 AND 0xE0 \<noteq> 0xC0" "b0 AND 0xF0 \<noteq> 0xE0" "b0 AND 0xF8 = 0xF0"
      | (bad) "\<not> b0 < 0x80" "b0 AND 0xE0 \<noteq> 0xC0" "b0 AND 0xF0 \<noteq> 0xE0" "b0 AND 0xF8 \<noteq> 0xF0"
      by blast
    then show ?thesis
    proof cases
      case one
      with "1.prems" r have "prepend (unat b0) (utf8_decode rest) = Inr s" by simp
      then obtain s1 where s1: "utf8_decode rest = Inr s1" "s = unat b0 # s1"
        by (auto dest: prepend_Inr)
      have "utf8_encode s1 = Inr rest" using "1.IH" s1(1) r by simp
      moreover have "utf8_encode_point (unat b0) = Inr [b0]"
        using byte_facts(1) [OF one] by (simp add: utf8_encode_point_def)
      ultimately show ?thesis by (simp add: s1(2) r)
    next
      case two
      from "1.prems" r two obtain b1 rest1 where rest: "rest = b1 # rest1"
        by (cases rest) auto
      define k where "k = unat (b0 AND 0x1F)"
      define p where "p = payload b1"
      define c where "c = k * 64 + p"
      from "1.prems" r two rest have ok: "is_continuation b1" "0x80 \<le> c"
        and pre: "prepend c (utf8_decode rest1) = Inr s"
        by (auto simp: Let_def k_def p_def c_def split: if_splits)
      then obtain s1 where s1: "utf8_decode rest1 = Inr s1" "s = c # s1"
        by (auto dest: prepend_Inr)
      have IH: "utf8_encode s1 = Inr rest1" using "1.IH" s1(1) r rest by simp
      have b0: "k < 32" "of_nat (192 + k) = b0" using byte_facts(2) [OF two(2)] by (auto simp: k_def)
      have b1: "p < 64" "of_nat (128 + p) = b1" using byte_facts(5) [OF ok(1)] by (auto simp: p_def)
      have lt: "c < 0x800" using b0(1) b1(1) by (simp add: c_def)
      have "utf8_encode_point c = Inr [of_nat (192 + c div 64), of_nat (128 + c mod 64)]"
        using ok(2) lt by (simp add: utf8_encode_point_def)
      then have "utf8_encode_point c = Inr [b0, b1]"
        unfolding c_def join2 [OF b1(1)] b0(2) b1(2) .
      with IH show ?thesis by (simp add: s1(2) r rest)
    next
      case three
      from "1.prems" r three obtain b1 b2 rest2 where rest: "rest = b1 # b2 # rest2"
        by (cases rest; cases "tl rest") auto
      define k where "k = unat (b0 AND 0x0F)"
      define p where "p = payload b1"
      define q where "q = payload b2"
      define c where "c = k * 4096 + p * 64 + q"
      from "1.prems" r three rest have ok: "is_continuation b1" "is_continuation b2"
        "0x800 \<le> c" "c < 0xD800 \<or> 0xE000 \<le> c"
        and pre: "prepend c (utf8_decode rest2) = Inr s"
        by (auto simp: Let_def k_def p_def q_def c_def split: if_splits)
      then obtain s1 where s1: "utf8_decode rest2 = Inr s1" "s = c # s1"
        by (auto dest: prepend_Inr)
      have IH: "utf8_encode s1 = Inr rest2" using "1.IH" s1(1) r rest by simp
      have b0: "k < 16" "of_nat (224 + k) = b0" using byte_facts(3) [OF three(3)] by (auto simp: k_def)
      have b1: "p < 64" "of_nat (128 + p) = b1" using byte_facts(5) [OF ok(1)] by (auto simp: p_def)
      have b2: "q < 64" "of_nat (128 + q) = b2" using byte_facts(5) [OF ok(2)] by (auto simp: q_def)
      have lt: "c < 0x10000" using b0(1) b1(1) b2(1) by (simp add: c_def)
      have "utf8_encode_point c
              = Inr [of_nat (224 + c div 4096), of_nat (128 + c div 64 mod 64),
                     of_nat (128 + c mod 64)]"
        using ok(3,4) lt by (auto simp: utf8_encode_point_def)
      then have "utf8_encode_point c = Inr [b0, b1, b2]"
        unfolding c_def join3 [OF b1(1) b2(1)] b0(2) b1(2) b2(2) .
      with IH show ?thesis by (simp add: s1(2) r rest)
    next
      case four
      from "1.prems" r four obtain b1 b2 b3 rest3 where rest: "rest = b1 # b2 # b3 # rest3"
        by (cases rest; cases "tl rest"; cases "tl (tl rest)") auto
      define k where "k = unat (b0 AND 0x07)"
      define p where "p = payload b1"
      define q where "q = payload b2"
      define t where "t = payload b3"
      define c where "c = k * 262144 + p * 4096 + q * 64 + t"
      from "1.prems" r four rest have ok: "is_continuation b1" "is_continuation b2"
        "is_continuation b3" "0x10000 \<le> c" "c < 0x110000"
        and pre: "prepend c (utf8_decode rest3) = Inr s"
        by (auto simp: Let_def k_def p_def q_def t_def c_def split: if_splits)
      then obtain s1 where s1: "utf8_decode rest3 = Inr s1" "s = c # s1"
        by (auto dest: prepend_Inr)
      have IH: "utf8_encode s1 = Inr rest3" using "1.IH" s1(1) r rest by simp
      have b0: "k < 8" "of_nat (240 + k) = b0" using byte_facts(4) [OF four(4)] by (auto simp: k_def)
      have b1: "p < 64" "of_nat (128 + p) = b1" using byte_facts(5) [OF ok(1)] by (auto simp: p_def)
      have b2: "q < 64" "of_nat (128 + q) = b2" using byte_facts(5) [OF ok(2)] by (auto simp: q_def)
      have b3: "t < 64" "of_nat (128 + t) = b3" using byte_facts(5) [OF ok(3)] by (auto simp: t_def)
      have "utf8_encode_point c
              = Inr [of_nat (240 + c div 262144), of_nat (128 + c div 4096 mod 64),
                     of_nat (128 + c div 64 mod 64), of_nat (128 + c mod 64)]"
        using ok(4,5) by (simp add: utf8_encode_point_def)
      then have "utf8_encode_point c = Inr [b0, b1, b2, b3]"
        unfolding c_def join4 [OF b1(1) b2(1) b3(1)] b0(2) b1(2) b2(2) b3(2) .
      with IH show ?thesis by (simp add: s1(2) r rest)
    next
      case bad
      with "1.prems" r show ?thesis by simp
    qed
  qed
qed


lemma utf8_encode_iff: "utf8_encode s = Inr r \<longleftrightarrow> utf8_of s r"
proof
  assume e: "utf8_encode s = Inr r"
  then have "list_all scalar_value s" using utf8_encode_fails [of s] by auto
  from utf8_roundtrip [OF this] e show "utf8_of s r" by (auto simp: utf8_of_def)
next
  assume "utf8_of s r"
  then show "utf8_encode s = Inr r" by (simp add: utf8_of_def utf8_decode_encode)
qed

text \<open>
  Known encodings of one, two, three and four bytes at the ends of their ranges, a
  surrogate, and \<open>str()\<close> of an integer, a boolean and \<open>None\<close>.
\<close>

lemma to_bytes_examples:
  "to_bytes (Str [0x41, 0x7F]) = Inr [0x41, 0x7F]"
  "to_bytes (Str [0x80, 0xE9, 0x7FF]) = Inr [0xC2, 0x80, 0xC3, 0xA9, 0xDF, 0xBF]"
  "to_bytes (Str [0x800, 0x20AC, 0xFFFF]) = Inr [0xE0, 0xA0, 0x80, 0xE2, 0x82, 0xAC, 0xEF, 0xBF, 0xBF]"
  "to_bytes (Str [0x10000, 0x1F600, 0x10FFFF])
     = Inr [0xF0, 0x90, 0x80, 0x80, 0xF0, 0x9F, 0x98, 0x80, 0xF4, 0x8F, 0xBF, 0xBF]"
  "to_bytes (Str [0x41, 0xD800]) = Inl UnicodeEncodeError"
  "to_bytes (Other (PyInt 42)) = Inr (bytes_lit ''42'')"
  "to_bytes (Other (PyInt (- 1207))) = Inr (bytes_lit ''-1207'')"
  "to_bytes (Other (PyBool True)) = Inr (bytes_lit ''True'')"
  "to_bytes (Other PyNone) = Inr (bytes_lit ''None'')"
  "to_bytes (Other (PyObject [0x20AC, 0x35])) = Inr [0xE2, 0x82, 0xAC, 0x35]"
  "to_bytes (Bytes [0xFF, 0x00]) = Inr [0xFF, 0x00]"
  by (simp_all add: utf8_encode_point_def bytes_lit_def text_lit_def
      decimal.simps [of 42] decimal.simps [of 4] decimal.simps [of 1207]
      decimal.simps [of 120] decimal.simps [of 12] decimal.simps [of "Suc 0"])

subsection \<open>Input coercion\<close>

lemma to_bytes_iff: "to_bytes p = Inr r \<longleftrightarrow> converted p r"
  by (cases p) (auto simp: utf8_encode_iff)

lemma to_bytes_encodable: "encodable p \<Longrightarrow> \<exists>r. to_bytes p = Inr r"
  by (cases p) (auto dest: utf8_roundtrip)

lemma to_bytes_raises: "\<not> encodable p \<Longrightarrow> to_bytes p = Inl UnicodeEncodeError"
  by (cases p) (auto simp: utf8_encode_fails)

lemma coerce_headers_bytes:
  "coerce_headers (map (\<lambda>(n, v). (Bytes n, Bytes v)) hs) = Inr hs"
  by (induction hs) auto

lemma coerce_headers_Inr_iff:
  "coerce_headers headers = Inr hs \<longleftrightarrow>
   list_all2 (\<lambda>(n, v) h. converted n (fst h) \<and> converted v (snd h)) headers hs"
proof (induction headers arbitrary: hs)
  case Nil
  show ?case by auto
next
  case (Cons p headers)
  obtain n v where p: "p = (n, v)" by (cases p)
  show ?case
  proof (cases hs)
    case Nil
    then show ?thesis by (auto simp: p split: sum.splits)
  next
    case (Cons h hs1)
    have "list_all2 (\<lambda>(n, v) h. converted n (fst h) \<and> converted v (snd h)) headers hs1
          \<longleftrightarrow> coerce_headers headers = Inr hs1"
      using Cons.IH [of hs1] by simp
    then show ?thesis
      by (cases "to_bytes n"; cases "to_bytes v"; cases "coerce_headers headers")
        (auto simp: p Cons simp flip: to_bytes_iff)
  qed
qed

lemma coerce_headers_encodable:
  "list_all (\<lambda>(n, v). encodable n \<and> encodable v) headers \<Longrightarrow>
   \<exists>hs. coerce_headers headers = Inr hs"
proof (induction headers)
  case Nil
  show ?case by simp
next
  case (Cons p headers)
  obtain n v where p: "p = (n, v)" by (cases p)
  from Cons.prems p obtain n1 v1 where "to_bytes n = Inr n1" "to_bytes v = Inr v1"
    using to_bytes_encodable [of n] to_bytes_encodable [of v] by auto
  moreover from Cons obtain hs where "coerce_headers headers = Inr hs" by auto
  ultimately show ?case by (simp add: p)
qed

text \<open>A value that cannot be encoded makes \<open>Encoder.encode\<close> raise UnicodeEncodeError.\<close>

lemma encode_raises_unencodable:
  assumes "\<not> list_all (\<lambda>(n, v). encodable n \<and> encodable v) headers"
  shows "Encoder_encode headers huffman st = Inl UnicodeEncodeError"
proof -
  have "coerce_headers headers = Inl UnicodeEncodeError" using assms
  proof (induction headers)
    case Nil
    then show ?case by simp
  next
    case (Cons p headers)
    obtain n v where p: "p = (n, v)" by (cases p)
    show ?case
    proof (cases "encodable n \<and> encodable v")
      case True
      with Cons p have "coerce_headers headers = Inl UnicodeEncodeError" by simp
      moreover from True obtain n1 v1 where "to_bytes n = Inr n1" "to_bytes v = Inr v1"
        using to_bytes_encodable [of n] to_bytes_encodable [of v] by auto
      ultimately show ?thesis by (simp add: p)
    next
      case False
      show ?thesis
      proof (cases "encodable n")
        case True
        with False have "to_bytes v = Inl UnicodeEncodeError" by (simp add: to_bytes_raises)
        moreover from True obtain n1 where "to_bytes n = Inr n1"
          using to_bytes_encodable [of n] by auto
        ultimately show ?thesis by (simp add: p)
      next
        case False
        then have "to_bytes n = Inl UnicodeEncodeError" by (rule to_bytes_raises)
        then show ?thesis by (simp add: p)
      qed
    qed
  qed
  then show ?thesis by (simp add: Encoder_encode_def)
qed

text \<open>
  C10. \<open>Encoder.encode\<close> accepts names and values that are \<open>bytes\<close>, \<open>str\<close> or
  objects of any other type, as long as their text can be encoded. It first turns every
  name and every value into a byte string, and these byte strings are the only ones that
  are right: a \<open>bytes\<close> value unchanged, the UTF-8 encoding of a \<open>str\<close>, and the
  UTF-8 encoding of \<open>str()\<close> of any other object. What it then looks up and emits is
  what it looks up and emits for that list of byte strings.
\<close>

theorem encode_coerces_input:
  assumes "list_all (\<lambda>(n, v). encodable n \<and> encodable v) headers"
  shows "\<exists>hs. coerce_headers headers = Inr hs
           \<and> list_all2 (\<lambda>(n, v) h. converted n (fst h) \<and> converted v (snd h)) headers hs
           \<and> (\<forall>hs1. list_all2 (\<lambda>(n, v) h. converted n (fst h) \<and> converted v (snd h))
                        headers hs1 \<longrightarrow> hs1 = hs)
           \<and> Encoder_encode headers huffman st
               = Encoder_encode (map (\<lambda>(n, v). (Bytes n, Bytes v)) hs) huffman st"
proof -
  from coerce_headers_encodable [OF assms] obtain hs
    where hs: "coerce_headers headers = Inr hs" by blast
  then have conv: "list_all2 (\<lambda>(n, v) h. converted n (fst h) \<and> converted v (snd h)) headers hs"
    by (simp add: coerce_headers_Inr_iff)
  have uniq: "\<forall>hs1. list_all2 (\<lambda>(n, v) h. converted n (fst h) \<and> converted v (snd h))
                        headers hs1 \<longrightarrow> hs1 = hs"
    using hs by (auto simp flip: coerce_headers_Inr_iff)
  have "Encoder_encode headers huffman st
          = Encoder_encode (map (\<lambda>(n, v). (Bytes n, Bytes v)) hs) huffman st"
    using hs by (simp add: Encoder_encode_def coerce_headers_bytes)
  with hs conv uniq show ?thesis by blast
qed

text \<open>
  An instance with a \<open>str\<close> name outside ASCII, an integer value, a \<open>bytes\<close> name and
  a value of another class whose text needs three and four bytes per code point.
\<close>

theorem encode_coerces_input_witness:
  "list_all (\<lambda>(n, v). encodable n \<and> encodable v)
     [(Str [0x78, 0x2D, 0xE9], Other (PyInt 42)),
      (Bytes (bytes_lit ''raw''), Other (PyObject [0x20AC, 0x1F600]))]
   \<and> coerce_headers
       [(Str [0x78, 0x2D, 0xE9], Other (PyInt 42)),
        (Bytes (bytes_lit ''raw''), Other (PyObject [0x20AC, 0x1F600]))]
     = Inr [([0x78, 0x2D, 0xC3, 0xA9], [0x34, 0x32]),
            (bytes_lit ''raw'', [0xE2, 0x82, 0xAC, 0xF0, 0x9F, 0x98, 0x80])]
   \<and> Encoder_encode
       [(Str [0x78, 0x2D, 0xE9], Other (PyInt 42)),
        (Bytes (bytes_lit ''raw''), Other (PyObject [0x20AC, 0x1F600]))]
       False (Encoder_init (\<lambda>b. b))
     = Encoder_encode
         [(Bytes [0x78, 0x2D, 0xC3, 0xA9], Bytes [0x34, 0x32]),
          (Bytes (bytes_lit ''raw''), Bytes [0xE2, 0x82, 0xAC, 0xF0, 0x9F, 0x98, 0x80])]
         False (Encoder_init (\<lambda>b. b))
   \<and> block_of (Encoder_encode
       [(Str [0x78, 0x2D, 0xE9], Other (PyInt 42)),
        (Bytes (bytes_lit ''raw''), Other (PyObject [0x20AC, 0x1F600]))]
       False (Encoder_init (\<lambda>b. b)))
     = Inr ([0x40, 0x04, 0x78, 0x2D, 0xC3, 0xA9, 0x02, 0x34, 0x32]
            @ [0x40, 0x03] @ bytes_lit ''raw''
            @ [0x07, 0xE2, 0x82, 0xAC, 0xF0, 0x9F, 0x98, 0x80])"
proof -
  let ?headers = "[(Str [0x78, 0x2D, 0xE9], Other (PyInt 42)),
      (Bytes (bytes_lit ''raw''), Other (PyObject [0x20AC, 0x1F600]))]"
  let ?hs = "[([0x78, 0x2D, 0xC3, 0xA9], [0x34, 0x32]),
      (bytes_lit ''raw'', [0xE2, 0x82, 0xAC, 0xF0, 0x9F, 0x98, 0x80])] :: header list"
  have h: "list_all (\<lambda>(n, v). encodable n \<and> encodable v) ?headers"
    by (simp add: scalar_value_def decimal.simps [of 42] decimal.simps [of 4])
  have c: "coerce_headers ?headers = Inr ?hs"
    by (simp add: utf8_encode_point_def decimal.simps [of 42] decimal.simps [of 4])
  from encode_coerces_input [OF h, of False "Encoder_init (\<lambda>b. b)"] c
  have e: "Encoder_encode ?headers False (Encoder_init (\<lambda>b. b))
         = Encoder_encode (map (\<lambda>(n, v). (Bytes n, Bytes v)) ?hs) False (Encoder_init (\<lambda>b. b))"
    by auto
  have b: "block_of (Encoder_encode (map (\<lambda>(n, v). (Bytes n, Bytes v)) ?hs) False
                       (Encoder_init (\<lambda>b. b)))
         = Inr ([0x40, 0x04, 0x78, 0x2D, 0xC3, 0xA9, 0x02, 0x34, 0x32]
                @ [0x40, 0x03] @ bytes_lit ''raw''
                @ [0x07, 0xE2, 0x82, 0xAC, 0xF0, 0x9F, 0x98, 0x80])"
    by (simp add: enc_defs block_of_def)
  from h c e b show ?thesis by simp
qed

end
